theory Spec2Isabelle
  imports Complex_Main "HOL-Library.Multiset"
begin

section \<open>Common Python notions\<close>

text \<open>
  The exceptions the modelled code can raise. Floating-point numbers are idealised as
  \<^typ>\<open>real\<close> (and \<^typ>\<open>complex\<close>): rounding, infinities and NaN are outside the model.
\<close>

datatype error = IndexError | ValueError | TypeError

section \<open>Event-driven simulation of a continuous-time Markov process\<close>

text \<open>
  A transition map is the Python dict returned by the transition function: candidate state
  to rate. It is represented by its items in insertion order (the order in which Python
  iterates over it); the keys of a dict are distinct.

  \<^verbatim>\<open>np.random.exponential(scale)\<close> is an external collaborator reading and updating the
  global generator: a function from the scale and the generator state to the variate and
  the next generator state.
\<close>

type_synonym 's transitions = "('s \<times> real) list"

type_synonym 'g sampler = "real \<Rightarrow> 'g \<Rightarrow> real \<times> 'g"

text \<open>\<^verbatim>\<open>{k: transitions[k] for k in transitions if transitions[k] > 0}\<close>\<close>

definition positive_rates :: "'s transitions \<Rightarrow> 's transitions" where
  "positive_rates transitions = filter (\<lambda>(k, r). 0 < r) transitions"

text \<open>\<^verbatim>\<open>{k: transitions[k] for k in transitions if transitions[k] < maxrate}\<close>\<close>

definition below_maxrate :: "real \<Rightarrow> 's transitions \<Rightarrow> 's transitions" where
  "below_maxrate maxrate transitions = filter (\<lambda>(k, r). r < maxrate) transitions"

text \<open>
  \<^verbatim>\<open>{k: np.random.exponential(1/transitions[k]) for k in transitions}\<close>:
  one draw per key, in iteration order, each with scale \<open>1/rate\<close>.
\<close>

fun times_to_move :: "'g sampler \<Rightarrow> 's transitions \<Rightarrow> 'g \<Rightarrow> ('s \<times> real) list \<times> 'g" where
  "times_to_move exponential [] g = ([], g)"
| "times_to_move exponential ((k, r) # rest) g =
     (let (w, g') = exponential (1 / r) g;
          (ws, g'') = times_to_move exponential rest g'
      in ((k, w) # ws, g''))"

text \<open>
  \<^verbatim>\<open>min(d, key=lambda k: d[k])\<close> over the items of a dict: the first item, in
  iteration order, whose value is smallest; \<^verbatim>\<open>min\<close> of an empty dict raises ValueError.
\<close>

fun min_from :: "('s \<times> real) \<Rightarrow> ('s \<times> real) list \<Rightarrow> ('s \<times> real)" where
  "min_from best [] = best"
| "min_from best (x # xs) = min_from (if snd x < snd best then x else best) xs"

definition py_min :: "('s \<times> real) list \<Rightarrow> error + ('s \<times> real)" where
  "py_min d = (case d of [] \<Rightarrow> Inl ValueError | x # xs \<Rightarrow> Inr (min_from x xs))"

subsection \<open>The simulator with a time span and a rate ceiling\<close>

text \<open>
  \<^verbatim>\<open>evolution(fun, tspan, state0, *, args=(), t_eval=None, maxrate=1e6)\<close>.
  The local variables of the loop, together with the warnings issued so far and the
  generator state, form the simulation state. \<^verbatim>\<open>args\<close> is part of the closure \<open>fun\<close>.
\<close>

datatype warning = RuntimeWarning_maxrate real real

record ('s, 'g) sim =
  sim_t :: real
  sim_state :: 's
  sim_ts :: "real list"
  sim_history :: "'s list"
  sim_warnings :: "warning list"
  sim_rng :: 'g

datatype ('s, 'g) outcome = Break "('s, 'g) sim" | Raise error | Next "('s, 'g) sim"

text \<open>\<^verbatim>\<open>if maxrate:\<close> is false for \<^verbatim>\<open>None\<close> and for zero.\<close>

definition truthy :: "real option \<Rightarrow> bool" where
  "truthy maxrate = (case maxrate of None \<Rightarrow> False | Some m \<Rightarrow> m \<noteq> 0)"

text \<open>The race: draw the times, take the first smallest, move there.\<close>

definition race :: "'g sampler \<Rightarrow> 's transitions \<Rightarrow> ('s, 'g) sim \<Rightarrow> ('s, 'g) outcome" where
  "race exponential transitions \<sigma> =
     (let (times, g') = times_to_move exponential transitions (sim_rng \<sigma>) in
      case py_min times of
        Inl e \<Rightarrow> Raise e
      | Inr (new_state, time_elapsed) \<Rightarrow>
          Next (\<sigma>\<lparr>sim_t := sim_t \<sigma> + time_elapsed,
                  sim_state := new_state,
                  sim_ts := sim_ts \<sigma> @ [sim_t \<sigma> + time_elapsed],
                  sim_history := sim_history \<sigma> @ [new_state],
                  sim_rng := g'\<rparr>))"

text \<open>One pass through the body of \<^verbatim>\<open>while t < tmax\<close>.\<close>

definition loop_body ::
  "'g sampler \<Rightarrow> (real \<Rightarrow> 's \<Rightarrow> 's transitions) \<Rightarrow> real option \<Rightarrow> ('s, 'g) sim \<Rightarrow> ('s, 'g) outcome"
where
  "loop_body exponential fun maxrate \<sigma> =
     (let transitions = positive_rates (fun (sim_t \<sigma>) (sim_state \<sigma>)) in
      if transitions = [] then Break \<sigma>
      else if truthy maxrate then
        (let transitions' = below_maxrate (the maxrate) transitions in
         if transitions' = [] then
           Break (\<sigma>\<lparr>sim_warnings :=
                      sim_warnings \<sigma> @ [RuntimeWarning_maxrate (the maxrate) (sim_t \<sigma>)]\<rparr>)
         else race exponential transitions' \<sigma>)
      else race exponential transitions \<sigma>)"

text \<open>The loop may run forever; not returning is the value \<open>None\<close>.\<close>

partial_function (option) evolution_loop ::
  "'g sampler \<Rightarrow> (real \<Rightarrow> 's \<Rightarrow> 's transitions) \<Rightarrow> real \<Rightarrow> real option \<Rightarrow> ('s, 'g) sim
   \<Rightarrow> (error + ('s, 'g) sim) option"
where
  "evolution_loop exponential fun tmax maxrate \<sigma> =
     (if sim_t \<sigma> < tmax then
        (case loop_body exponential fun maxrate \<sigma> of
           Break \<sigma>' \<Rightarrow> Some (Inr \<sigma>')
         | Raise e \<Rightarrow> Some (Inl e)
         | Next \<sigma>' \<Rightarrow> evolution_loop exponential fun tmax maxrate \<sigma>')
      else Some (Inr \<sigma>))"

text \<open>
  \<^verbatim>\<open>interp1d(ts, history, kind='previous', axis=0)\<close> of SciPy, applied to one query
  time, after the library's documentation: the points are sorted by abscissa (stable),
  a query outside \<open>[x[0], x[-1]]\<close> raises ValueError (the default \<^verbatim>\<open>bounds_error\<close>), and
  otherwise the ordinate of the last point whose abscissa is at most the query is returned.
\<close>

definition interp1d_previous :: "real list \<Rightarrow> 's list \<Rightarrow> real \<Rightarrow> error + 's" where
  "interp1d_previous xs ys q =
     (if length xs \<noteq> length ys \<or> xs = [] then Inl ValueError
      else
        (let pts = sort_key fst (zip xs ys) in
         if q < fst (hd pts) \<or> fst (last pts) < q then Inl ValueError
         else Inr (snd (last (filter (\<lambda>p. fst p \<le> q) pts)))))"

text \<open>\<^verbatim>\<open>[interp(t) for t in t_eval]\<close>: the first failing query raises.\<close>

fun interp_all :: "(real \<Rightarrow> error + 's) \<Rightarrow> real list \<Rightarrow> error + 's list" where
  "interp_all interp [] = Inr []"
| "interp_all interp (t # rest) =
     (case interp t of
        Inl e \<Rightarrow> Inl e
      | Inr y \<Rightarrow> (case interp_all interp rest of Inl e \<Rightarrow> Inl e | Inr ys \<Rightarrow> Inr (y # ys)))"

text \<open>
  The result: the pair of arrays the function returns, with the warnings issued and the
  generator state left behind.
\<close>

record ('s, 'g) run =
  run_ts :: "real list"
  run_history :: "'s list"
  run_warnings :: "warning list"
  run_rng :: 'g

text \<open>The state on entry to the loop.\<close>

definition initial_sim :: "real \<Rightarrow> 's \<Rightarrow> 'g \<Rightarrow> ('s, 'g) sim" where
  "initial_sim tmin state0 g =
     \<lparr>sim_t = tmin, sim_state = state0, sim_ts = [tmin], sim_history = [state0],
      sim_warnings = [], sim_rng = g\<rparr>"

definition evolution ::
  "'g sampler \<Rightarrow> (real \<Rightarrow> 's \<Rightarrow> 's transitions) \<Rightarrow> real \<times> real \<Rightarrow> 's \<Rightarrow> real list option
   \<Rightarrow> real option \<Rightarrow> 'g \<Rightarrow> (error + ('s, 'g) run) option"
where
  "evolution exponential fun tspan state0 t_eval maxrate g =
     (let tmin = fst tspan; tmax = snd tspan in
      case evolution_loop exponential fun tmax maxrate (initial_sim tmin state0 g) of
        None \<Rightarrow> None
      | Some (Inl e) \<Rightarrow> Some (Inl e)
      | Some (Inr \<sigma>) \<Rightarrow>
          (case t_eval of
             None \<Rightarrow>
               Some (Inr \<lparr>run_ts = sim_ts \<sigma>, run_history = sim_history \<sigma>,
                          run_warnings = sim_warnings \<sigma>, run_rng = sim_rng \<sigma>\<rparr>)
           | Some qs \<Rightarrow>
               (case interp_all (interp1d_previous (sim_ts \<sigma>) (sim_history \<sigma>)) qs of
                  Inl e \<Rightarrow> Some (Inl e)
                | Inr ys \<Rightarrow>
                    Some (Inr \<lparr>run_ts = qs, run_history = ys,
                               run_warnings = sim_warnings \<sigma>, run_rng = sim_rng \<sigma>\<rparr>))))"

subsection \<open>The earlier simulator, with a time grid and a resampling list\<close>

text \<open>
  \<^verbatim>\<open>np.linspace(start, stop, num)\<close>: \<open>num\<close> evenly spaced samples, the last one set
  to \<open>stop\<close>; a negative \<open>num\<close> raises ValueError.
\<close>

definition linspace :: "real \<Rightarrow> real \<Rightarrow> int \<Rightarrow> error + real list" where
  "linspace start stop num =
     (if num < 0 then Inl ValueError
      else Inr (map (\<lambda>i. if 1 < num \<and> int i = num - 1 then stop
                          else start + real i * ((stop - start) / real_of_int (num - 1)))
                    [0..<nat num]))"

text \<open>
  \<^verbatim>\<open>evolution(fun, ts, state0, resample=None)\<close>. The argument \<^verbatim>\<open>ts\<close> is a
  Python number (then replaced by \<^verbatim>\<open>np.linspace(0, ts)\<close>, 50 samples) or an array of times.
\<close>

datatype ts_arg = PyNumber real | NdArray "real list"

record ('s, 'g) basic_sim =
  bs_t :: real
  bs_state :: 's
  bs_history :: "(real \<times> 's) list"
  bs_rng :: 'g

datatype ('s, 'g) basic_outcome =
  BasicBreak "('s, 'g) basic_sim" | BasicRaise error | BasicNext "('s, 'g) basic_sim"

definition basic_loop_body ::
  "'g sampler \<Rightarrow> (real \<Rightarrow> 's \<Rightarrow> 's transitions) \<Rightarrow> ('s, 'g) basic_sim \<Rightarrow> ('s, 'g) basic_outcome"
where
  "basic_loop_body exponential fun \<sigma> =
     (let transitions = positive_rates (fun (bs_t \<sigma>) (bs_state \<sigma>)) in
      if transitions = [] then BasicBreak \<sigma>
      else
        (let (times, g') = times_to_move exponential transitions (bs_rng \<sigma>) in
         case py_min times of
           Inl e \<Rightarrow> BasicRaise e
         | Inr (new_state, time_elapsed) \<Rightarrow>
             BasicNext (\<sigma>\<lparr>bs_t := bs_t \<sigma> + time_elapsed,
                          bs_state := new_state,
                          bs_history := bs_history \<sigma> @ [(bs_t \<sigma> + time_elapsed, new_state)],
                          bs_rng := g'\<rparr>)))"

partial_function (option) basic_loop ::
  "'g sampler \<Rightarrow> (real \<Rightarrow> 's \<Rightarrow> 's transitions) \<Rightarrow> real \<Rightarrow> ('s, 'g) basic_sim
   \<Rightarrow> (error + ('s, 'g) basic_sim) option"
where
  "basic_loop exponential fun t_last \<sigma> =
     (if bs_t \<sigma> < t_last then
        (case basic_loop_body exponential fun \<sigma> of
           BasicBreak \<sigma>' \<Rightarrow> Some (Inr \<sigma>')
         | BasicRaise e \<Rightarrow> Some (Inl e)
         | BasicNext \<sigma>' \<Rightarrow> basic_loop exponential fun t_last \<sigma>')
      else Some (Inr \<sigma>))"

text \<open>
  \<^verbatim>\<open>max([h for h in history if h[0] <= t], key=lambda h: h[0])\<close>: the first event, in
  list order, whose time is largest among those at or before \<open>t\<close>; ValueError when
  there is none.
\<close>

fun max_from :: "(real \<times> 's) \<Rightarrow> (real \<times> 's) list \<Rightarrow> (real \<times> 's)" where
  "max_from best [] = best"
| "max_from best (h # hs) = max_from (if fst best < fst h then h else best) hs"

definition last_event :: "(real \<times> 's) list \<Rightarrow> real \<Rightarrow> error + (real \<times> 's)" where
  "last_event history t =
     (case filter (\<lambda>h. fst h \<le> t) history of
        [] \<Rightarrow> Inl ValueError
      | h # hs \<Rightarrow> Inr (max_from h hs))"

fun resampled_history :: "(real \<times> 's) list \<Rightarrow> real list \<Rightarrow> error + (real \<times> 's) list" where
  "resampled_history history [] = Inr []"
| "resampled_history history (t # rest) =
     (case last_event history t of
        Inl e \<Rightarrow> Inl e
      | Inr ev \<Rightarrow>
          (case resampled_history history rest of
             Inl e \<Rightarrow> Inl e
           | Inr out \<Rightarrow> Inr ((t, snd ev) # out)))"

text \<open>
  The state on entry to the loop: \<^verbatim>\<open>t = ts[0]\<close> and \<^verbatim>\<open>history = [[0, state0]]\<close>.
\<close>

definition initial_basic_sim :: "real \<Rightarrow> 's \<Rightarrow> 'g \<Rightarrow> ('s, 'g) basic_sim" where
  "initial_basic_sim t0 state0 g =
     \<lparr>bs_t = t0, bs_state = state0, bs_history = [(0, state0)], bs_rng = g\<rparr>"

definition evolution_basic ::
  "'g sampler \<Rightarrow> (real \<Rightarrow> 's \<Rightarrow> 's transitions) \<Rightarrow> ts_arg \<Rightarrow> 's \<Rightarrow> real list option \<Rightarrow> 'g
   \<Rightarrow> (error + (real \<times> 's) list \<times> 'g) option"
where
  "evolution_basic exponential fun ts state0 resample g =
     (case (case ts of PyNumber T \<Rightarrow> linspace 0 T 50 | NdArray a \<Rightarrow> Inr a) of
        Inl e \<Rightarrow> Some (Inl e)
      | Inr ts' \<Rightarrow>
          if ts' = [] then Some (Inl IndexError)
          else
            (case basic_loop exponential fun (last ts') (initial_basic_sim (hd ts') state0 g) of
               None \<Rightarrow> None
             | Some (Inl e) \<Rightarrow> Some (Inl e)
             | Some (Inr \<sigma>) \<Rightarrow>
                 (case resample of
                    None \<Rightarrow> Some (Inr (bs_history \<sigma>, bs_rng \<sigma>))
                  | Some qs \<Rightarrow>
                      (case resampled_history (bs_history \<sigma>) qs of
                         Inl e \<Rightarrow> Some (Inl e)
                       | Inr out \<Rightarrow> Some (Inr (out, bs_rng \<sigma>))))))"

section \<open>Finite-difference discretisation\<close>

text \<open>A dense matrix is the list of its rows.\<close>

type_synonym matrix = "real list list"

definition then_do :: "error + 'a \<Rightarrow> ('a \<Rightarrow> error + 'b) \<Rightarrow> error + 'b" where
  "then_do r f = (case r of Inl e \<Rightarrow> Inl e | Inr x \<Rightarrow> f x)"

text \<open>\<^verbatim>\<open>np.eye(nx)\<close>\<close>

definition eye :: "nat \<Rightarrow> matrix" where
  "eye nx = map (\<lambda>i. map (\<lambda>j. if i = j then 1 else 0) [0..<nx]) [0..<nx]"

text \<open>
  \<^verbatim>\<open>np.roll(a, shift, 1)\<close>: every row is shifted cyclically, entry \<open>j\<close> of the result
  being entry \<open>(j - shift) mod n\<close> of the row.
\<close>

definition roll_row :: "int \<Rightarrow> real list \<Rightarrow> real list" where
  "roll_row shift a = map (\<lambda>j. a ! nat ((int j - shift) mod int (length a))) [0..<length a]"

definition roll :: "matrix \<Rightarrow> int \<Rightarrow> matrix" where
  "roll a shift = map (roll_row shift) a"

text \<open>Entrywise arithmetic of arrays of equal shape, and with a scalar.\<close>

definition madd :: "matrix \<Rightarrow> matrix \<Rightarrow> matrix" where
  "madd a b = map2 (map2 (+)) a b"

definition msub :: "matrix \<Rightarrow> matrix \<Rightarrow> matrix" where
  "msub a b = map2 (map2 (-)) a b"

definition mscale :: "real \<Rightarrow> matrix \<Rightarrow> matrix" where
  "mscale c a = map (map (\<lambda>x. c * x)) a"

definition mdiv :: "matrix \<Rightarrow> real \<Rightarrow> matrix" where
  "mdiv a c = map (map (\<lambda>x. x / c)) a"

text \<open>
  Python indexing and slicing of one axis of length \<open>n\<close>: a negative index counts from
  the end; an index out of range raises IndexError; slice bounds are clipped.
\<close>

definition py_index :: "int \<Rightarrow> nat \<Rightarrow> error + nat" where
  "py_index i n =
     (let j = (if i < 0 then int n + i else i)
      in if 0 \<le> j \<and> j < int n then Inr (nat j) else Inl IndexError)"

definition slice_bound :: "int \<Rightarrow> nat \<Rightarrow> nat" where
  "slice_bound i n = (if i < 0 then nat (max 0 (int n + i)) else min (nat i) n)"

definition slice_range :: "int option \<Rightarrow> int option \<Rightarrow> nat \<Rightarrow> nat \<times> nat" where
  "slice_range lo hi n =
     (let a = (case lo of None \<Rightarrow> 0 | Some i \<Rightarrow> slice_bound i n);
          b = (case hi of None \<Rightarrow> n | Some i \<Rightarrow> slice_bound i n)
      in (a, max a b))"

text \<open>\<^verbatim>\<open>m[r, lo:hi] = c\<close> for a scalar \<open>c\<close>.\<close>

definition fill_slice :: "int \<Rightarrow> int option \<Rightarrow> int option \<Rightarrow> real \<Rightarrow> matrix \<Rightarrow> error + matrix" where
  "fill_slice r lo hi c m =
     then_do (py_index r (length m)) (\<lambda>i.
       let row = m ! i; (a, b) = slice_range lo hi (length row)
       in Inr (m[i := take a row @ replicate (b - a) c @ drop b row]))"

text \<open>
  \<^verbatim>\<open>m[r, lo:hi] = vals\<close> for a sequence of at least two values: ValueError (no
  broadcasting) unless the slice has as many places as there are values.
\<close>

definition set_slice :: "int \<Rightarrow> int option \<Rightarrow> int option \<Rightarrow> real list \<Rightarrow> matrix \<Rightarrow> error + matrix" where
  "set_slice r lo hi vals m =
     then_do (py_index r (length m)) (\<lambda>i.
       let row = m ! i; (a, b) = slice_range lo hi (length row)
       in if b - a = length vals then Inr (m[i := take a row @ vals @ drop b row])
          else Inl ValueError)"

text \<open>\<^verbatim>\<open>m[r, c] = v\<close>\<close>

definition set_entry :: "int \<Rightarrow> int \<Rightarrow> real \<Rightarrow> matrix \<Rightarrow> error + matrix" where
  "set_entry r c v m =
     then_do (py_index r (length m)) (\<lambda>i.
       then_do (py_index c (length (m ! i))) (\<lambda>j.
         Inr (m[i := (m ! i)[j := v]])))"

text \<open>
  The four statements that overwrite the first and the last row of a derivative matrix
  with a forward and a backward stencil.
\<close>

definition one_sided_rows :: "real list \<Rightarrow> real list \<Rightarrow> matrix \<Rightarrow> error + matrix" where
  "one_sided_rows forward backward m =
     then_do (fill_slice 0 (Some 4) None 0 m) (\<lambda>m1.
     then_do (set_slice 0 None (Some 4) forward m1) (\<lambda>m2.
     then_do (fill_slice (-1) None (Some (-4)) 0 m2) (\<lambda>m3.
     set_slice (-1) (Some (-4)) None backward m3)))"

definition ddx_forward :: "real \<Rightarrow> real list" where
  "ddx_forward dx = map (\<lambda>c. c / dx) [- 11 / 6, 3, - 3 / 2, 1 / 3]"

definition ddx_backward :: "real \<Rightarrow> real list" where
  "ddx_backward dx = map (\<lambda>c. c / dx) [- 1 / 3, 3 / 2, - 3, 11 / 6]"

definition d2dx2_forward :: "real \<Rightarrow> real list" where
  "d2dx2_forward dx = map (\<lambda>c. c / (dx * dx)) [2, - 5, 4, - 1]"

definition d2dx2_backward :: "real \<Rightarrow> real list" where
  "d2dx2_backward dx = map (\<lambda>c. c / (dx * dx)) [- 1, 4, - 5, 2]"

text \<open>
  The central differences
  \<^verbatim>\<open>(np.roll(eye, 1, 1) - np.roll(eye, -1, 1)) / (2*dx)\<close> and
  \<^verbatim>\<open>(np.roll(eye, 1, 1) - 2*eye + np.roll(eye, -1, 1)) / (dx*dx)\<close>.
\<close>

definition central_ddx :: "matrix \<Rightarrow> real \<Rightarrow> matrix" where
  "central_ddx eye0 dx = mdiv (msub (roll eye0 1) (roll eye0 (- 1))) (2 * dx)"

definition central_d2dx2 :: "matrix \<Rightarrow> real \<Rightarrow> matrix" where
  "central_d2dx2 eye0 dx =
     mdiv (madd (msub (roll eye0 1) (mscale 2 eye0)) (roll eye0 (- 1))) (dx * dx)"

text \<open>
  \<^verbatim>\<open>discretise(xa, xb, nx=101, bcs="periodic")\<close>, returning
  \<^verbatim>\<open>xs, dx, eye, ddx, d2dx2\<close>.
\<close>

record grid =
  grid_xs :: "real list"
  grid_dx :: real
  grid_eye :: matrix
  grid_ddx :: matrix
  grid_d2dx2 :: matrix

definition discretise :: "real \<Rightarrow> real \<Rightarrow> int \<Rightarrow> string \<Rightarrow> error + grid" where
  "discretise xa xb nx bcs =
     then_do (linspace xa xb nx) (\<lambda>xs.
       if length xs < 2 then Inl IndexError
       else
         (let dx = xs ! 1 - xs ! 0;
              eye0 = eye (nat nx);
              ddx = central_ddx eye0 dx;
              d2dx2 = central_d2dx2 eye0 dx
          in
          if bcs = ''periodic'' then
            Inr \<lparr>grid_xs = xs, grid_dx = dx, grid_eye = eye0, grid_ddx = ddx, grid_d2dx2 = d2dx2\<rparr>
          else if bcs = ''dirichlet'' then
            then_do (one_sided_rows (ddx_forward dx) (ddx_backward dx) ddx) (\<lambda>ddx'.
            then_do (one_sided_rows (d2dx2_forward dx) (d2dx2_backward dx) d2dx2) (\<lambda>d2dx2'.
              Inr \<lparr>grid_xs = xs, grid_dx = dx, grid_eye = eye0, grid_ddx = ddx',
                   grid_d2dx2 = d2dx2'\<rparr>))
          else if bcs = ''neumann'' then
            then_do (set_entry 0 0 (dx * dx) eye0) (\<lambda>eye1.
            then_do (set_entry (- 1) (- 1) (dx * dx) eye1) (\<lambda>eye2.
            then_do (one_sided_rows (ddx_forward dx) (ddx_backward dx) ddx) (\<lambda>ddx'.
            then_do (one_sided_rows (d2dx2_forward dx) (d2dx2_backward dx) d2dx2) (\<lambda>d2dx2'.
              Inr \<lparr>grid_xs = xs, grid_dx = dx, grid_eye = eye2, grid_ddx = ddx',
                   grid_d2dx2 = d2dx2'\<rparr>))))
          else Inl ValueError))"

text \<open>
  The later copy of \<^verbatim>\<open>discretise(xa, xb, nx=101)\<close> has no boundary-condition argument
  and always overwrites the boundary rows.
\<close>

definition discretise_one_sided :: "real \<Rightarrow> real \<Rightarrow> int \<Rightarrow> error + grid" where
  "discretise_one_sided xa xb nx =
     then_do (linspace xa xb nx) (\<lambda>xs.
       if length xs < 2 then Inl IndexError
       else
         (let dx = xs ! 1 - xs ! 0;
              eye0 = eye (nat nx);
              ddx = central_ddx eye0 dx;
              d2dx2 = central_d2dx2 eye0 dx
          in
          then_do (one_sided_rows (ddx_forward dx) (ddx_backward dx) ddx) (\<lambda>ddx'.
          then_do (one_sided_rows (d2dx2_forward dx) (d2dx2_backward dx) d2dx2) (\<lambda>d2dx2'.
            Inr \<lparr>grid_xs = xs, grid_dx = dx, grid_eye = eye0, grid_ddx = ddx',
                 grid_d2dx2 = d2dx2'\<rparr>))))"

text \<open>
  \<^verbatim>\<open>d4dx4_mat(nx, dx=1, bcs="dirichlet")\<close>. The spacing is a Python number (the
  default \<^verbatim>\<open>1\<close>) or a NumPy scalar (the \<^verbatim>\<open>dx\<close> that \<^verbatim>\<open>discretise\<close> returns): dividing
  the tuple \<^verbatim>\<open>(1, -4, 6, -4, 1)\<close> by a Python number raises TypeError, dividing it by a
  NumPy scalar gives an array.
\<close>

datatype scalar = PyNum real | NpFloat real

fun scalar_val :: "scalar \<Rightarrow> real" where
  "scalar_val (PyNum x) = x"
| "scalar_val (NpFloat x) = x"

definition tuple_div :: "real list \<Rightarrow> scalar \<Rightarrow> real \<Rightarrow> error + real list" where
  "tuple_div tup dx denom =
     (case dx of PyNum _ \<Rightarrow> Inl TypeError | NpFloat _ \<Rightarrow> Inr (map (\<lambda>c. c / denom) tup))"

text \<open>
  \<^verbatim>\<open>(np.roll(eye, 2, 1) - 4*np.roll(eye, 1, 1) + 6*eye - 4*np.roll(eye, -1, 1)
   + np.roll(eye, -2, 1)) / dx**4\<close>
\<close>

definition central_d4dx4 :: "matrix \<Rightarrow> real \<Rightarrow> matrix" where
  "central_d4dx4 eye0 dx4 =
     mdiv (madd (msub (madd (msub (roll eye0 2) (mscale 4 (roll eye0 1)))
                            (mscale 6 eye0))
                      (mscale 4 (roll eye0 (- 1))))
                (roll eye0 (- 2)))
          dx4"

definition d4dx4_mat :: "int \<Rightarrow> scalar \<Rightarrow> string \<Rightarrow> error + matrix" where
  "d4dx4_mat nx dx bcs =
     (if nx < 0 then Inl ValueError
      else
        (let eye0 = eye (nat nx);
             dx4 = scalar_val dx ^ 4;
             d4dx4 = central_d4dx4 eye0 dx4
         in
         if bcs = ''dirichlet'' then
           then_do (fill_slice 0 None None 0 d4dx4) (\<lambda>m1.
           then_do (tuple_div [1, - 4, 6, - 4, 1] dx dx4) (\<lambda>stencil.
           then_do (set_slice 0 None (Some 5) stencil m1) (\<lambda>m2.
           then_do (fill_slice 1 None None 0 m2) (\<lambda>m3.
           then_do (fill_slice (- 2) None None 0 m3) (\<lambda>m4.
           fill_slice (- 1) None None 0 m4)))))
         else if bcs = ''periodic'' then Inr d4dx4
         else Inl ValueError))"

section \<open>Sorted, rescaled eigenpairs\<close>

text \<open>
  \<^verbatim>\<open>myeig(op, eye, *args, **kwargs)\<close>. The solver \<^verbatim>\<open>scipy.linalg.eig\<close> is an external
  collaborator: it fails or returns the array of eigenvalues and the matrix whose columns
  are the eigenvectors. \<^verbatim>\<open>sorted\<close> is a stable sort; indexing an array with an index
  out of range raises IndexError.
\<close>

type_synonym cmatrix = "complex list list"

definition myeig ::
  "(matrix \<Rightarrow> matrix \<Rightarrow> error + complex list \<times> cmatrix) \<Rightarrow> matrix \<Rightarrow> matrix
   \<Rightarrow> error + complex list \<times> cmatrix"
where
  "myeig eig op eye0 =
     (let nx = length op in
      then_do (eig op eye0) (\<lambda>(eigvals, eigvecs).
        if length eigvals < nx \<or> list_ex (\<lambda>row. length row < nx) eigvecs then Inl IndexError
        else
          (let ordering = sort_key (\<lambda>i. Re (eigvals ! i)) [0..<nx]
           in Inr (map (\<lambda>i. eigvals ! i) ordering,
                   map (\<lambda>row. map (\<lambda>i. row ! i * complex_of_real (sqrt (real nx))) ordering)
                       eigvecs))))"

section \<open>Notions used to state the properties\<close>

text \<open>
  The states a run passes through: \<open>reaches \<sigma> \<sigma>'\<close> when the loop, entered in \<open>\<sigma>\<close>,
  arrives at its head in \<open>\<sigma>'\<close> after some number of completed passes.
\<close>

inductive reaches ::
  "'g sampler \<Rightarrow> (real \<Rightarrow> 's \<Rightarrow> 's transitions) \<Rightarrow> real \<Rightarrow> real option
   \<Rightarrow> ('s, 'g) sim \<Rightarrow> ('s, 'g) sim \<Rightarrow> bool"
  for exponential f tmax maxrate
where
  reaches_here: "reaches exponential f tmax maxrate \<sigma> \<sigma>"
| reaches_pass:
    "reaches exponential f tmax maxrate \<sigma> \<sigma>' \<Longrightarrow> sim_t \<sigma>' < tmax \<Longrightarrow>
     loop_body exponential f maxrate \<sigma>' = Next \<sigma>'' \<Longrightarrow>
     reaches exponential f tmax maxrate \<sigma> \<sigma>''"

text \<open>
  The candidates that enter the race of a pass: those with a positive rate and, when a
  ceiling is in force, a rate below it.
\<close>

definition candidates :: "real option \<Rightarrow> 's transitions \<Rightarrow> 's transitions" where
  "candidates maxrate transitions =
     (case maxrate of
        None \<Rightarrow> filter (\<lambda>(k, r). 0 < r) transitions
      | Some m \<Rightarrow>
          if m = 0 then filter (\<lambda>(k, r). 0 < r) transitions
          else filter (\<lambda>(k, r). 0 < r \<and> r < m) transitions)"

text \<open>
  A row is a first-derivative stencil at grid point \<open>i\<close> when it differentiates the
  polynomials of degree at most one exactly: applied to the samples of a constant it gives
  0, applied to the samples of \<open>x\<close> it gives 1.
\<close>

definition first_derivative_stencil :: "nat \<Rightarrow> real \<Rightarrow> real list \<Rightarrow> bool" where
  "first_derivative_stencil i dx row =
     (sum_list row = 0 \<and>
      sum_list (map (\<lambda>j. row ! j * ((real j - real i) * dx)) [0..<length row]) = 1)"

text \<open>An \<open>n \<times> n\<close> array.\<close>

definition square :: "nat \<Rightarrow> 'a list list \<Rightarrow> bool" where
  "square n m = (length m = n \<and> list_all (\<lambda>row. length row = n) m)"

text \<open>Column \<open>j\<close> of a matrix: an eigenvector returned by the solver.\<close>

definition column :: "'a list list \<Rightarrow> nat \<Rightarrow> 'a list" where
  "column m j = map (\<lambda>row. row ! j) m"

text \<open>
  What a race over the candidates \<open>C\<close> from generator state \<open>g\<close> yields: one variate
  per candidate, drawn in order with scale \<open>1/rate\<close> from the generator state that the
  earlier draws left behind, and a winner \<open>k\<close> whose waiting time \<open>w\<close> is the smallest.
\<close>

definition race_result :: "'g sampler \<Rightarrow> 's transitions \<Rightarrow> 'g \<Rightarrow> 's \<Rightarrow> real \<Rightarrow> bool" where
  "race_result exponential C g k w =
     (let times = fst (times_to_move exponential C g) in
      length times = length C \<and>
      (\<forall>i \<in> {0..<length C}.
         times ! i =
           (fst (C ! i),
            fst (exponential (1 / snd (C ! i))
                   (snd (times_to_move exponential (take i C) g))))) \<and>
      (k, w) \<in> set times \<and>
      (\<forall>p \<in> set times. w \<le> snd p))"

text \<open>
  The rate \<open>n\<close> stays under the ceiling: no ceiling is in force, or \<open>n\<close> is below it.
\<close>

definition under_ceiling :: "real option \<Rightarrow> int \<Rightarrow> bool" where
  "under_ceiling maxrate n =
     (case maxrate of None \<Rightarrow> True | Some m \<Rightarrow> m = 0 \<or> real_of_int n < m)"

text \<open>
  A sampler of waiting times: for a positive scale the variate is positive (the support
  of the exponential distribution).
\<close>

definition positive_sampler :: "'g sampler \<Rightarrow> bool" where
  "positive_sampler exponential = (\<forall>scale g. 0 < scale \<longrightarrow> 0 < fst (exponential scale g))"

text \<open>
  What the loop of the simulator with a time span maintains: the recorded times start at
  \<open>tmin\<close> and end at the current time, the recorded states start at \<open>state0\<close>, there is
  one state per time, and the times increase strictly.
\<close>

definition trajectory_ok :: "real \<Rightarrow> 's \<Rightarrow> ('s, 'g) sim \<Rightarrow> bool" where
  "trajectory_ok tmin state0 \<sigma> =
     (sim_ts \<sigma> \<noteq> [] \<and> hd (sim_ts \<sigma>) = tmin \<and> last (sim_ts \<sigma>) = sim_t \<sigma> \<and>
      sim_history \<sigma> \<noteq> [] \<and> hd (sim_history \<sigma>) = state0 \<and>
      length (sim_ts \<sigma>) = length (sim_history \<sigma>) \<and>
      sorted_wrt (<) (sim_ts \<sigma>))"

subsection \<open>Concrete collaborators for the examples\<close>

text \<open>A sampler that returns its scale (the mean) and leaves the generator alone.\<close>

definition mean_sampler :: "unit sampler" where
  "mean_sampler scale g = (scale, g)"

text \<open>A sampler that replays a tape of variates.\<close>

definition tape_sampler :: "(real list) sampler" where
  "tape_sampler scale g = (case g of [] \<Rightarrow> (scale, []) | w # ws \<Rightarrow> (w, ws))"

text \<open>Pure decay: \<^verbatim>\<open>{state - 1: state}\<close>.\<close>

definition decay :: "real \<Rightarrow> int \<Rightarrow> int transitions" where
  "decay t state = [(state - 1, real_of_int state)]"

text \<open>An absorbing state everywhere: \<^verbatim>\<open>{}\<close>.\<close>

definition absorbing :: "real \<Rightarrow> int \<Rightarrow> int transitions" where
  "absorbing t state = []"

text \<open>Two candidates, one fast and one slow: \<^verbatim>\<open>{1: 20, 2: 1}\<close>.\<close>

definition fast_and_slow :: "real \<Rightarrow> int \<Rightarrow> int transitions" where
  "fast_and_slow t state = [(1, 20), (2, 1)]"

text \<open>Rates that blow up: \<^verbatim>\<open>{state + 1: 100 * state ** 2}\<close>.\<close>

definition blow_up :: "real \<Rightarrow> int \<Rightarrow> int transitions" where
  "blow_up t state = [(state + 1, 100 * (real_of_int state)\<^sup>2)]"

text \<open>A solver stub returning the eigenpairs of \<open>diag(2, 1)\<close> in the order \<open>2, 1\<close>.\<close>

definition diag_solver :: "matrix \<Rightarrow> matrix \<Rightarrow> error + complex list \<times> cmatrix" where
  "diag_solver a b = Inr ([2, 1], [[1, 0], [0, 1]])"

section \<open>Properties of the simulator\<close>

subsection \<open>The race of a single pass\<close>

lemma times_to_move_Cons:
  "times_to_move ex ((k, r) # rest) g =
     ((k, fst (ex (1 / r) g)) # fst (times_to_move ex rest (snd (ex (1 / r) g))),
      snd (times_to_move ex rest (snd (ex (1 / r) g))))"
  by (simp add: case_prod_beta)

lemma times_to_move_length:
  "length (fst (times_to_move ex C g)) = length C"
  by (induction C arbitrary: g) (auto simp: times_to_move_Cons simp del: times_to_move.simps(2))

lemma times_to_move_keys:
  "map fst (fst (times_to_move ex C g)) = map fst C"
  by (induction C arbitrary: g) (auto simp: times_to_move_Cons simp del: times_to_move.simps(2))

lemma times_to_move_nth:
  "i < length C \<Longrightarrow>
   fst (times_to_move ex C g) ! i =
     (fst (C ! i), fst (ex (1 / snd (C ! i)) (snd (times_to_move ex (take i C) g))))"
proof (induction C arbitrary: g i)
  case Nil then show ?case by simp
next
  case (Cons c C)
  obtain k r where c: "c = (k, r)" by (cases c)
  show ?case
  proof (cases i)
    case 0 then show ?thesis by (simp add: c times_to_move_Cons del: times_to_move.simps(2))
  next
    case (Suc j)
    with Cons.prems have "j < length C" by simp
    from Cons.IH[OF this] show ?thesis
      by (simp add: c Suc times_to_move_Cons del: times_to_move.simps(2))
  qed
qed

lemma min_from_mem: "min_from b xs \<in> set (b # xs)"
proof (induction xs arbitrary: b)
  case Nil then show ?case by simp
next
  case (Cons x xs)
  from Cons.IH[of "if snd x < snd b then x else b"] show ?case
    by (auto split: if_splits)
qed

lemma min_from_le_best: "snd (min_from b xs) \<le> snd b"
proof (induction xs arbitrary: b)
  case Nil then show ?case by simp
next
  case (Cons x xs)
  from Cons.IH[of "if snd x < snd b then x else b"] show ?case
    by (auto split: if_splits)
qed

lemma min_from_le: "y \<in> set xs \<Longrightarrow> snd (min_from b xs) \<le> snd y"
proof (induction xs arbitrary: b)
  case Nil then show ?case by simp
next
  case (Cons x xs)
  show ?case
  proof (cases "y = x")
    case True
    have "snd (min_from (if snd x < snd b then x else b) xs) \<le> snd (if snd x < snd b then x else b)"
      by (rule min_from_le_best)
    then show ?thesis using True by (auto split: if_splits)
  next
    case False
    with Cons.prems have "y \<in> set xs" by simp
    from Cons.IH[OF this] show ?thesis by simp
  qed
qed

lemma py_min_Inr:
  assumes "d \<noteq> []"
  shows "\<exists>p. py_min d = Inr p \<and> p \<in> set d \<and> (\<forall>y \<in> set d. snd p \<le> snd y)"
proof -
  from assms obtain x xs where d: "d = x # xs" by (cases d) auto
  have "min_from x xs \<in> set d" unfolding d by (rule min_from_mem)
  moreover have "\<forall>y \<in> set d. snd (min_from x xs) \<le> snd y"
    unfolding d using min_from_le_best[of x xs] min_from_le[of _ xs x] by auto
  ultimately show ?thesis by (simp add: py_min_def d)
qed

lemma candidates_eq:
  "candidates maxrate tr =
     (if truthy maxrate then below_maxrate (the maxrate) (positive_rates tr) else positive_rates tr)"
  by (auto simp: candidates_def truthy_def below_maxrate_def positive_rates_def
      split: option.splits intro!: filter_cong)

lemma loop_body_candidates:
  "loop_body ex f maxrate \<sigma> =
     (if positive_rates (f (sim_t \<sigma>) (sim_state \<sigma>)) = [] then Break \<sigma>
      else if candidates maxrate (f (sim_t \<sigma>) (sim_state \<sigma>)) = [] then
        Break (\<sigma>\<lparr>sim_warnings :=
                   sim_warnings \<sigma> @ [RuntimeWarning_maxrate (the maxrate) (sim_t \<sigma>)]\<rparr>)
      else race ex (candidates maxrate (f (sim_t \<sigma>) (sim_state \<sigma>))) \<sigma>)"
  by (simp add: loop_body_def candidates_eq Let_def)

lemma race_Next:
  assumes "C \<noteq> []"
  shows "\<exists>k w. race ex C \<sigma> =
            Next (\<sigma>\<lparr>sim_t := sim_t \<sigma> + w, sim_state := k,
                    sim_ts := sim_ts \<sigma> @ [sim_t \<sigma> + w],
                    sim_history := sim_history \<sigma> @ [k],
                    sim_rng := snd (times_to_move ex C (sim_rng \<sigma>))\<rparr>)
          \<and> (k, w) \<in> set (fst (times_to_move ex C (sim_rng \<sigma>)))
          \<and> (\<forall>p \<in> set (fst (times_to_move ex C (sim_rng \<sigma>))). w \<le> snd p)"
proof -
  let ?times = "fst (times_to_move ex C (sim_rng \<sigma>))"
  have "length ?times = length C" by (rule times_to_move_length)
  with assms have "?times \<noteq> []" by auto
  from py_min_Inr[OF this] obtain p where
    p: "py_min ?times = Inr p" "p \<in> set ?times" "\<forall>y \<in> set ?times. snd p \<le> snd y"
    by blast
  obtain k w where kw: "p = (k, w)" by (cases p)
  have "race ex C \<sigma> =
            Next (\<sigma>\<lparr>sim_t := sim_t \<sigma> + w, sim_state := k,
                    sim_ts := sim_ts \<sigma> @ [sim_t \<sigma> + w],
                    sim_history := sim_history \<sigma> @ [k],
                    sim_rng := snd (times_to_move ex C (sim_rng \<sigma>))\<rparr>)"
    using p(1) by (simp add: race_def kw case_prod_beta)
  with p kw show ?thesis by auto
qed

lemma race_result_intro:
  assumes "(k, w) \<in> set (fst (times_to_move ex C g))"
    and "\<forall>p \<in> set (fst (times_to_move ex C g)). w \<le> snd p"
  shows "race_result ex C g k w"
  using assms by (simp add: race_result_def Let_def times_to_move_length times_to_move_nth)

lemma loop_body_Next:
  assumes ne: "candidates maxrate (f (sim_t \<sigma>) (sim_state \<sigma>)) \<noteq> []"
  shows "\<exists>k w. loop_body ex f maxrate \<sigma> =
                Next (\<sigma>\<lparr>sim_t := sim_t \<sigma> + w, sim_state := k,
                        sim_ts := sim_ts \<sigma> @ [sim_t \<sigma> + w],
                        sim_history := sim_history \<sigma> @ [k],
                        sim_rng := snd (times_to_move ex
                                     (candidates maxrate (f (sim_t \<sigma>) (sim_state \<sigma>)))
                                     (sim_rng \<sigma>))\<rparr>) \<and>
              race_result ex (candidates maxrate (f (sim_t \<sigma>) (sim_state \<sigma>)))
                (sim_rng \<sigma>) k w"
proof -
  let ?C = "candidates maxrate (f (sim_t \<sigma>) (sim_state \<sigma>))"
  have "positive_rates (f (sim_t \<sigma>) (sim_state \<sigma>)) \<noteq> []"
    using ne by (auto simp: candidates_eq below_maxrate_def split: if_splits)
  then have body: "loop_body ex f maxrate \<sigma> = race ex ?C \<sigma>"
    using ne by (simp add: loop_body_candidates)
  from race_Next[OF ne, of ex \<sigma>] obtain k w where
    r: "race ex ?C \<sigma> =
            Next (\<sigma>\<lparr>sim_t := sim_t \<sigma> + w, sim_state := k,
                    sim_ts := sim_ts \<sigma> @ [sim_t \<sigma> + w],
                    sim_history := sim_history \<sigma> @ [k],
                    sim_rng := snd (times_to_move ex ?C (sim_rng \<sigma>))\<rparr>)"
    and m: "(k, w) \<in> set (fst (times_to_move ex ?C (sim_rng \<sigma>)))"
    and l: "\<forall>p \<in> set (fst (times_to_move ex ?C (sim_rng \<sigma>))). w \<le> snd p"
    by blast
  from race_result_intro[OF m l] r body show ?thesis by auto
qed

lemma basic_loop_body_Next:
  assumes ne: "positive_rates (f (bs_t \<beta>) (bs_state \<beta>)) \<noteq> []"
  shows "\<exists>k w. basic_loop_body ex f \<beta> =
                BasicNext (\<beta>\<lparr>bs_t := bs_t \<beta> + w, bs_state := k,
                             bs_history := bs_history \<beta> @ [(bs_t \<beta> + w, k)],
                             bs_rng := snd (times_to_move ex
                                          (positive_rates (f (bs_t \<beta>) (bs_state \<beta>)))
                                          (bs_rng \<beta>))\<rparr>) \<and>
              race_result ex (positive_rates (f (bs_t \<beta>) (bs_state \<beta>)))
                (bs_rng \<beta>) k w"
proof -
  let ?C = "positive_rates (f (bs_t \<beta>) (bs_state \<beta>))"
  let ?times = "fst (times_to_move ex ?C (bs_rng \<beta>))"
  have "length ?times = length ?C" by (rule times_to_move_length)
  with ne have "?times \<noteq> []" by auto
  from py_min_Inr[OF this] obtain p where
    p: "py_min ?times = Inr p" "p \<in> set ?times" "\<forall>y \<in> set ?times. snd p \<le> snd y"
    by blast
  obtain k w where kw: "p = (k, w)" by (cases p)
  have "basic_loop_body ex f \<beta> =
          BasicNext (\<beta>\<lparr>bs_t := bs_t \<beta> + w, bs_state := k,
                       bs_history := bs_history \<beta> @ [(bs_t \<beta> + w, k)],
                       bs_rng := snd (times_to_move ex ?C (bs_rng \<beta>))\<rparr>)"
    using p(1) ne by (simp add: basic_loop_body_def kw case_prod_beta Let_def)
  moreover have "race_result ex ?C (bs_rng \<beta>) k w"
    using p(2,3) kw by (intro race_result_intro) auto
  ultimately show ?thesis by blast
qed

text \<open>
  C2 (as amended). In a pass of the loop that does not halt, one variate is drawn for each
  candidate that enters the race, with scale (mean) \<open>1/rate\<close>; the candidate with the
  smallest waiting time becomes the new state and the time advances by exactly that waiting
  time. In the simulator with a rate ceiling the candidates are those with a positive rate
  below the ceiling (all with a positive rate when no ceiling is in force); in the earlier
  simulator they are all those with a positive rate.
\<close>

theorem step_race_among_candidates:
  "(candidates maxrate (f (sim_t \<sigma>) (sim_state \<sigma>)) \<noteq> [] \<longrightarrow>
      (\<exists>k w. loop_body ex f maxrate \<sigma> =
                Next (\<sigma>\<lparr>sim_t := sim_t \<sigma> + w, sim_state := k,
                        sim_ts := sim_ts \<sigma> @ [sim_t \<sigma> + w],
                        sim_history := sim_history \<sigma> @ [k],
                        sim_rng := snd (times_to_move ex
                                     (candidates maxrate (f (sim_t \<sigma>) (sim_state \<sigma>)))
                                     (sim_rng \<sigma>))\<rparr>) \<and>
              race_result ex (candidates maxrate (f (sim_t \<sigma>) (sim_state \<sigma>)))
                (sim_rng \<sigma>) k w))
   \<and> (positive_rates (f' (bs_t \<beta>) (bs_state \<beta>)) \<noteq> [] \<longrightarrow>
      (\<exists>k w. basic_loop_body ex' f' \<beta> =
                BasicNext (\<beta>\<lparr>bs_t := bs_t \<beta> + w, bs_state := k,
                             bs_history := bs_history \<beta> @ [(bs_t \<beta> + w, k)],
                             bs_rng := snd (times_to_move ex'
                                          (positive_rates (f' (bs_t \<beta>) (bs_state \<beta>)))
                                          (bs_rng \<beta>))\<rparr>) \<and>
              race_result ex' (positive_rates (f' (bs_t \<beta>) (bs_state \<beta>)))
                (bs_rng \<beta>) k w))"
  using loop_body_Next[of maxrate f \<sigma> ex] basic_loop_body_Next[of f' \<beta> ex']
  by blast

lemma initial_sim_simps [simp]:
  "sim_t (initial_sim tmin s0 g) = tmin" "sim_state (initial_sim tmin s0 g) = s0"
  "sim_ts (initial_sim tmin s0 g) = [tmin]" "sim_history (initial_sim tmin s0 g) = [s0]"
  "sim_warnings (initial_sim tmin s0 g) = []" "sim_rng (initial_sim tmin s0 g) = g"
  by (simp_all add: initial_sim_def)

text \<open>
  C2 as stated fails in the simulator with a rate ceiling: with the map \<open>{1: 20, 2: 1}\<close>,
  ceiling 10 and a sampler returning the mean, the race over all candidates of positive
  rate is won by state 1 after time 1/20, but the pass moves to state 2 after time 1.
\<close>

theorem step_race_all_positive_counterexample:
  "loop_body mean_sampler fast_and_slow (Some 10) (initial_sim 0 0 ()) =
     Next \<lparr>sim_t = 1, sim_state = 2, sim_ts = [0, 1], sim_history = [0, 2],
           sim_warnings = [], sim_rng = ()\<rparr>
   \<and> py_min (fst (times_to_move mean_sampler (positive_rates (fast_and_slow 0 0)) ())) =
       Inr (1, 1 / 20)"
  by (simp add: loop_body_def positive_rates_def below_maxrate_def truthy_def race_def
      fast_and_slow_def mean_sampler_def py_min_def initial_sim_def)

theorem step_race_among_candidates_witness:
  "candidates (Some 10) (fast_and_slow (sim_t (initial_sim 0 0 ())) (sim_state (initial_sim 0 0 ()))) \<noteq> []
   \<and> positive_rates (fast_and_slow (bs_t (initial_basic_sim 0 0 ())) (bs_state (initial_basic_sim 0 0 ()))) \<noteq> []
   \<and> (\<exists>k w. loop_body mean_sampler fast_and_slow (Some 10) (initial_sim 0 0 ()) =
                Next ((initial_sim 0 0 ())\<lparr>sim_t := 0 + w, sim_state := k,
                        sim_ts := [0] @ [0 + w],
                        sim_history := [0] @ [k],
                        sim_rng := ()\<rparr>) \<and>
              race_result mean_sampler [(2, 1)] () k w)
   \<and> (\<exists>k w. basic_loop_body mean_sampler fast_and_slow (initial_basic_sim 0 0 ()) =
                BasicNext ((initial_basic_sim 0 0 ())\<lparr>bs_t := 0 + w, bs_state := k,
                             bs_history := [(0, 0)] @ [(0 + w, k)],
                             bs_rng := ()\<rparr>) \<and>
              race_result mean_sampler [(1, 20), (2, 1)] () k w)"
proof -
  have c: "candidates (Some 10) (fast_and_slow 0 0) = [(2, 1)]"
    by (simp add: candidates_def fast_and_slow_def)
  have p: "positive_rates (fast_and_slow 0 0) = [(1, 20), (2, 1)]"
    by (simp add: positive_rates_def fast_and_slow_def)
  have b: "bs_t (initial_basic_sim 0 0 ()) = 0" "bs_state (initial_basic_sim 0 (0::int) ()) = 0"
    "bs_history (initial_basic_sim 0 (0::int) ()) = [(0, 0)]"
    by (simp_all add: initial_basic_sim_def)
  from step_race_among_candidates[of "Some 10" fast_and_slow "initial_sim 0 0 ()" mean_sampler
      fast_and_slow "initial_basic_sim 0 0 ()" mean_sampler]
  show ?thesis by (simp add: c p b)
qed

lemma candidates_below:
  "m \<noteq> 0 \<Longrightarrow> candidates (Some m) tr = filter (\<lambda>(k, r). 0 < r \<and> r < m) tr"
  by (simp add: candidates_def)

lemma times_to_move_winner_key:
  "(k, w) \<in> set (fst (times_to_move ex C g)) \<Longrightarrow> \<exists>r. (k, r) \<in> set C"
proof -
  assume "(k, w) \<in> set (fst (times_to_move ex C g))"
  then have "k \<in> set (map fst (fst (times_to_move ex C g)))" by force
  then have "k \<in> set (map fst C)" by (simp only: times_to_move_keys)
  then show ?thesis by auto
qed

subsection \<open>The rate ceiling\<close>

text \<open>
  C10. With a positive ceiling \<open>m\<close>, in a pass where some candidate with a positive rate
  below the ceiling remains, the pass does not halt; the race is run over exactly the
  candidates with \<open>0 < rate < m\<close>, so no candidate whose rate is at least \<open>m\<close> becomes
  the new state, and the new state is one of the below-ceiling candidates.
\<close>

theorem ceiling_candidates_never_race:
  assumes "maxrate = Some m" and "0 < m"
    and "distinct (map fst (f (sim_t \<sigma>) (sim_state \<sigma>)))"
    and "(k0, r0) \<in> set (f (sim_t \<sigma>) (sim_state \<sigma>))" and "0 < r0" and "r0 < m"
  shows "\<exists>\<sigma>'. loop_body ex f maxrate \<sigma> = Next \<sigma>'
           \<and> map fst (fst (times_to_move ex (candidates maxrate (f (sim_t \<sigma>) (sim_state \<sigma>)))
                               (sim_rng \<sigma>)))
               = map fst (filter (\<lambda>(k, r). 0 < r \<and> r < m) (f (sim_t \<sigma>) (sim_state \<sigma>)))
           \<and> (\<forall>k r. (k, r) \<in> set (f (sim_t \<sigma>) (sim_state \<sigma>)) \<and> m \<le> r
                  \<longrightarrow> sim_state \<sigma>' \<noteq> k)
           \<and> (\<exists>r. (sim_state \<sigma>', r) \<in> set (f (sim_t \<sigma>) (sim_state \<sigma>)) \<and> 0 < r \<and> r < m)"
proof -
  let ?tr = "f (sim_t \<sigma>) (sim_state \<sigma>)"
  let ?C = "candidates maxrate ?tr"
  have C: "?C = filter (\<lambda>(k, r). 0 < r \<and> r < m) ?tr"
    using assms(1,2) by (simp add: candidates_below)
  have "(k0, r0) \<in> set ?C" using assms(4-6) by (simp add: C)
  then have ne: "?C \<noteq> []" by auto
  from loop_body_Next[of maxrate f \<sigma> ex] ne obtain k w where
    body: "loop_body ex f maxrate \<sigma> =
             Next (\<sigma>\<lparr>sim_t := sim_t \<sigma> + w, sim_state := k,
                     sim_ts := sim_ts \<sigma> @ [sim_t \<sigma> + w],
                     sim_history := sim_history \<sigma> @ [k],
                     sim_rng := snd (times_to_move ex ?C (sim_rng \<sigma>))\<rparr>)"
    and rr: "race_result ex ?C (sim_rng \<sigma>) k w"
    by blast
  from rr have "(k, w) \<in> set (fst (times_to_move ex ?C (sim_rng \<sigma>)))"
    by (simp add: race_result_def Let_def)
  from times_to_move_winner_key[OF this] obtain r where r: "(k, r) \<in> set ?C" by blast
  then have in_tr: "(k, r) \<in> set ?tr" and pos: "0 < r" and lt: "r < m" by (auto simp: C)
  have never: "k \<noteq> k'" if "(k', r') \<in> set ?tr" "m \<le> r'" for k' r'
  proof
    assume "k = k'"
    with that(1) in_tr assms(3) have "r = r'"
      by (meson eq_key_imp_eq_value)
    with lt that(2) show False by simp
  qed
  let ?\<sigma>' = "\<sigma>\<lparr>sim_t := sim_t \<sigma> + w, sim_state := k,
                     sim_ts := sim_ts \<sigma> @ [sim_t \<sigma> + w],
                     sim_history := sim_history \<sigma> @ [k],
                     sim_rng := snd (times_to_move ex ?C (sim_rng \<sigma>))\<rparr>"
  have "loop_body ex f maxrate \<sigma> = Next ?\<sigma>'" by (rule body)
  moreover have "map fst (fst (times_to_move ex ?C (sim_rng \<sigma>)))
               = map fst (filter (\<lambda>(k, r). 0 < r \<and> r < m) ?tr)"
    by (simp only: times_to_move_keys C)
  moreover have "\<forall>k' r'. (k', r') \<in> set ?tr \<and> m \<le> r' \<longrightarrow> sim_state ?\<sigma>' \<noteq> k'"
    using never by auto
  moreover have "\<exists>r. (sim_state ?\<sigma>', r) \<in> set ?tr \<and> 0 < r \<and> r < m"
    using in_tr pos lt by auto
  ultimately show ?thesis by blast
qed

theorem ceiling_candidates_never_race_witness:
  "Some 10 = Some (10::real) \<and> (0::real) < 10
   \<and> distinct (map fst (fast_and_slow (sim_t (initial_sim 0 0 ())) (sim_state (initial_sim 0 0 ()))))
   \<and> (2, 1) \<in> set (fast_and_slow (sim_t (initial_sim 0 0 ())) (sim_state (initial_sim 0 0 ())))
   \<and> (0::real) < 1 \<and> (1::real) < 10
   \<and> (\<exists>\<sigma>'. loop_body mean_sampler fast_and_slow (Some 10) (initial_sim 0 0 ()) = Next \<sigma>'
         \<and> sim_state \<sigma>' \<noteq> 1 \<and> sim_state \<sigma>' = 2)"
proof -
  have d: "distinct (map fst (fast_and_slow (sim_t (initial_sim 0 0 ())) (sim_state (initial_sim 0 0 ()))))"
    by (simp add: fast_and_slow_def)
  have i: "(2, 1) \<in> set (fast_and_slow (sim_t (initial_sim 0 0 ())) (sim_state (initial_sim 0 0 ())))"
    by (simp add: fast_and_slow_def)
  from ceiling_candidates_never_race[of "Some 10" 10 fast_and_slow "initial_sim 0 0 ()" 2 1
      mean_sampler] d i
  obtain \<sigma>' where
    b: "loop_body mean_sampler fast_and_slow (Some 10) (initial_sim 0 0 ()) = Next \<sigma>'"
    and n: "\<forall>k r. (k, r) \<in> set (fast_and_slow 0 0) \<and> 10 \<le> r \<longrightarrow> sim_state \<sigma>' \<noteq> k"
    and e: "\<exists>r. (sim_state \<sigma>', r) \<in> set (fast_and_slow 0 0) \<and> 0 < r \<and> r < 10"
    by auto
  from n have "sim_state \<sigma>' \<noteq> 1" by (simp add: fast_and_slow_def)
  moreover from e have "sim_state \<sigma>' = 2" by (auto simp: fast_and_slow_def)
  ultimately show ?thesis using b d i by auto
qed

lemma reaches_loop:
  "reaches ex f tmax maxrate \<sigma> \<sigma>' \<Longrightarrow>
   evolution_loop ex f tmax maxrate \<sigma> = evolution_loop ex f tmax maxrate \<sigma>'"
proof (induction rule: reaches.induct)
  case (reaches_here \<sigma>)
  show ?case by simp
next
  case (reaches_pass \<sigma> \<sigma>' \<sigma>'')
  have "evolution_loop ex f tmax maxrate \<sigma>' = evolution_loop ex f tmax maxrate \<sigma>''"
    using reaches_pass.hyps(2,3) by (subst evolution_loop.simps) simp
  with reaches_pass.IH show ?case by simp
qed

lemma loop_body_ceiling_halt:
  assumes "maxrate = Some m" and "m \<noteq> 0"
    and "list_ex (\<lambda>(k, r). 0 < r) (f (sim_t \<sigma>) (sim_state \<sigma>))"
    and "list_all (\<lambda>(k, r). r \<le> 0 \<or> m \<le> r) (f (sim_t \<sigma>) (sim_state \<sigma>))"
  shows "loop_body ex f maxrate \<sigma> =
           Break (\<sigma>\<lparr>sim_warnings := sim_warnings \<sigma> @ [RuntimeWarning_maxrate m (sim_t \<sigma>)]\<rparr>)"
proof -
  let ?tr = "f (sim_t \<sigma>) (sim_state \<sigma>)"
  have ne: "positive_rates ?tr \<noteq> []"
    using assms(3) by (auto simp: positive_rates_def filter_empty_conv list_ex_iff)
  have "below_maxrate m (positive_rates ?tr) = []"
    using assms(4)
    by (fastforce simp: below_maxrate_def positive_rates_def filter_empty_conv list_all_iff)
  then show ?thesis
    using assms(1,2) ne by (simp add: loop_body_def truthy_def Let_def)
qed

text \<open>
  The halt at the ceiling. With a ceiling \<open>m\<close> in force (not \<^verbatim>\<open>None\<close>, not zero), when the
  run arrives at the head of the loop in a state with \<open>t < tmax\<close> where the transition map
  has a candidate of positive rate and every candidate of positive rate has a rate of at
  least \<open>m\<close>, the loop ends there with a \<^verbatim>\<open>RuntimeWarning\<close> naming the ceiling and the
  time. Called without \<^verbatim>\<open>t_eval\<close> the function then returns the trajectory accumulated so
  far, unchanged; called with \<^verbatim>\<open>t_eval\<close> it goes on to resample that trajectory, and
  returns or raises as the resampling does.
\<close>

lemma ceiling_halt_run:
  assumes "maxrate = Some m" and "m \<noteq> 0"
    and "reaches ex f tmax maxrate (initial_sim tmin state0 g) \<sigma>"
    and "sim_t \<sigma> < tmax"
    and "list_ex (\<lambda>(k, r). 0 < r) (f (sim_t \<sigma>) (sim_state \<sigma>))"
    and "list_all (\<lambda>(k, r). r \<le> 0 \<or> m \<le> r) (f (sim_t \<sigma>) (sim_state \<sigma>))"
  shows "evolution ex f (tmin, tmax) state0 t_eval maxrate g =
           (case t_eval of
              None \<Rightarrow>
                Some (Inr \<lparr>run_ts = sim_ts \<sigma>, run_history = sim_history \<sigma>,
                           run_warnings =
                             sim_warnings \<sigma> @ [RuntimeWarning_maxrate m (sim_t \<sigma>)],
                           run_rng = sim_rng \<sigma>\<rparr>)
            | Some qs \<Rightarrow>
                (case interp_all (interp1d_previous (sim_ts \<sigma>) (sim_history \<sigma>)) qs of
                   Inl e \<Rightarrow> Some (Inl e)
                 | Inr ys \<Rightarrow>
                     Some (Inr \<lparr>run_ts = qs, run_history = ys,
                                run_warnings =
                                  sim_warnings \<sigma> @ [RuntimeWarning_maxrate m (sim_t \<sigma>)],
                                run_rng = sim_rng \<sigma>\<rparr>)))"
proof -
  have "evolution_loop ex f tmax maxrate (initial_sim tmin state0 g) =
          evolution_loop ex f tmax maxrate \<sigma>"
    using assms(3) by (rule reaches_loop)
  also have "\<dots> = Some (Inr (\<sigma>\<lparr>sim_warnings :=
                 sim_warnings \<sigma> @ [RuntimeWarning_maxrate m (sim_t \<sigma>)]\<rparr>))"
    using assms(1,2,4,5,6) loop_body_ceiling_halt[of maxrate m f \<sigma> ex]
    by (subst evolution_loop.simps) simp
  finally show ?thesis
    by (simp add: evolution_def split: option.splits sum.splits)
qed

lemma ceiling_halt_returns_trajectory:
  assumes "maxrate = Some m" and "m \<noteq> 0"
    and "reaches ex f tmax maxrate (initial_sim tmin state0 g) \<sigma>"
    and "sim_t \<sigma> < tmax"
    and "list_ex (\<lambda>(k, r). 0 < r) (f (sim_t \<sigma>) (sim_state \<sigma>))"
    and "list_all (\<lambda>(k, r). r \<le> 0 \<or> m \<le> r) (f (sim_t \<sigma>) (sim_state \<sigma>))"
  shows "evolution ex f (tmin, tmax) state0 None maxrate g =
           Some (Inr \<lparr>run_ts = sim_ts \<sigma>, run_history = sim_history \<sigma>,
                      run_warnings = sim_warnings \<sigma> @ [RuntimeWarning_maxrate m (sim_t \<sigma>)],
                      run_rng = sim_rng \<sigma>\<rparr>)"
  using ceiling_halt_run[of maxrate m ex f tmax tmin state0 g \<sigma> None] assms by simp

lemma blow_up_reaches_ceiling:
  "reaches mean_sampler blow_up 2 (Some 150) (initial_sim 0 1 ())
     \<lparr>sim_t = 1 / 100, sim_state = 2, sim_ts = [0, 1 / 100], sim_history = [1, 2],
      sim_warnings = [], sim_rng = ()\<rparr>"
proof -
  let ?\<sigma> = "\<lparr>sim_t = 1 / 100, sim_state = 2::int, sim_ts = [0, 1 / 100], sim_history = [1, 2],
         sim_warnings = [], sim_rng = ()\<rparr>"
  have body: "loop_body mean_sampler blow_up (Some 150) (initial_sim 0 1 ()) = Next ?\<sigma>"
    by (simp add: loop_body_def positive_rates_def below_maxrate_def truthy_def race_def
        blow_up_def mean_sampler_def py_min_def initial_sim_def)
  show ?thesis by (rule reaches_pass[OF reaches_here _ body]) simp
qed

text \<open>
  C8. The halt at the ceiling is not always free of exceptions. With rates
  \<^verbatim>\<open>{state + 1: 100 * state ** 2}\<close>, initial state 1, time span \<open>(0, 2)\<close>, ceiling 150 and
  a sampler returning the mean, the loop makes one jump (to state 2 at time 0.01) and halts
  at the ceiling (rate 400). Called without \<^verbatim>\<open>t_eval\<close> the function returns the truncated
  trajectory \<open>(0, 1), (0.01, 2)\<close> and has issued the warning; called with
  \<^verbatim>\<open>t_eval = [0, 1, 2]\<close> it raises ValueError, because the resampling rejects the query
  times after the halt.
\<close>

theorem ceiling_halt_resampling_raises:
  "evolution mean_sampler blow_up (0, 2) 1 None (Some 150) () =
     Some (Inr \<lparr>run_ts = [0, 1 / 100], run_history = [1, 2],
                run_warnings = [RuntimeWarning_maxrate 150 (1 / 100)], run_rng = ()\<rparr>)
   \<and> evolution mean_sampler blow_up (0, 2) 1 (Some [0, 1, 2]) (Some 150) () =
       Some (Inl ValueError)"
proof -
  let ?\<sigma> = "\<lparr>sim_t = 1 / 100, sim_state = 2::int, sim_ts = [0, 1 / 100], sim_history = [1, 2],
         sim_warnings = [], sim_rng = ()\<rparr>"
  have ex: "list_ex (\<lambda>(k, r). 0 < r) (blow_up (sim_t ?\<sigma>) (sim_state ?\<sigma>))"
    by (simp add: blow_up_def)
  have al: "list_all (\<lambda>(k, r). r \<le> 0 \<or> 150 \<le> r) (blow_up (sim_t ?\<sigma>) (sim_state ?\<sigma>))"
    by (simp add: blow_up_def)
  have t: "sim_t ?\<sigma> < 2" by simp
  note run = ceiling_halt_run[of "Some 150" 150 mean_sampler blow_up 2 0 1 "()" ?\<sigma>,
      OF refl _ blow_up_reaches_ceiling t ex al]
  have a: "evolution mean_sampler blow_up (0, 2) 1 None (Some 150) () =
     Some (Inr \<lparr>run_ts = [0, 1 / 100], run_history = [1, 2],
                run_warnings = [RuntimeWarning_maxrate 150 (1 / 100)], run_rng = ()\<rparr>)"
    using run[of None] by simp
  have b: "evolution mean_sampler blow_up (0, 2) 1 (Some [0, 1, 2]) (Some 150) () =
       Some (Inl ValueError)"
    using run[of "Some [0, 1, 2]"] by (simp add: interp1d_previous_def)
  from a b show ?thesis ..
qed

subsection \<open>Absorption of the pure-decay process\<close>

lemma under_ceiling_mono: "under_ceiling maxrate (int (Suc n)) \<Longrightarrow> under_ceiling maxrate (int n)"
  by (auto simp: under_ceiling_def split: option.splits)

lemma decay_candidates:
  "under_ceiling maxrate (int (Suc n)) \<Longrightarrow>
   candidates maxrate (decay t (int (Suc n))) = [(int n, real (Suc n))]"
  by (auto simp: under_ceiling_def candidates_def decay_def split: option.splits)

lemma decay_pass:
  assumes "under_ceiling maxrate (int (Suc n))" and "sim_state \<sigma> = int (Suc n)"
  shows "loop_body ex decay maxrate \<sigma> =
           Next (\<sigma>\<lparr>sim_t := sim_t \<sigma> + fst (ex (1 / real (Suc n)) (sim_rng \<sigma>)),
                   sim_state := int n,
                   sim_ts := sim_ts \<sigma> @ [sim_t \<sigma> + fst (ex (1 / real (Suc n)) (sim_rng \<sigma>))],
                   sim_history := sim_history \<sigma> @ [int n],
                   sim_rng := snd (ex (1 / real (Suc n)) (sim_rng \<sigma>))\<rparr>)"
proof -
  have c: "candidates maxrate (decay (sim_t \<sigma>) (sim_state \<sigma>)) = [(int n, real (Suc n))]"
    using assms by (simp only: decay_candidates)
  have "positive_rates (decay (sim_t \<sigma>) (sim_state \<sigma>)) \<noteq> []"
    using assms(2) by (simp add: positive_rates_def decay_def)
  then have "loop_body ex decay maxrate \<sigma> = race ex [(int n, real (Suc n))] \<sigma>"
    by (simp add: loop_body_candidates c)
  also have "\<dots> = Next (\<sigma>\<lparr>sim_t := sim_t \<sigma> + fst (ex (1 / real (Suc n)) (sim_rng \<sigma>)),
                   sim_state := int n,
                   sim_ts := sim_ts \<sigma> @ [sim_t \<sigma> + fst (ex (1 / real (Suc n)) (sim_rng \<sigma>))],
                   sim_history := sim_history \<sigma> @ [int n],
                   sim_rng := snd (ex (1 / real (Suc n)) (sim_rng \<sigma>))\<rparr>)"
    by (simp add: race_def py_min_def case_prod_beta)
  finally show ?thesis .
qed

lemma decay_loop:
  "under_ceiling maxrate (int n) \<Longrightarrow> sim_state \<sigma> = int n \<Longrightarrow>
   sim_history \<sigma> \<noteq> [] \<Longrightarrow> last (sim_history \<sigma>) = sim_state \<sigma> \<Longrightarrow>
   \<exists>T. \<forall>tmax\<ge>T. \<exists>\<sigma>'. evolution_loop ex decay tmax maxrate \<sigma> = Some (Inr \<sigma>')
        \<and> sim_history \<sigma>' \<noteq> [] \<and> last (sim_history \<sigma>') = 0"
proof (induction n arbitrary: \<sigma>)
  case 0
  have body: "loop_body ex decay maxrate \<sigma> = Break \<sigma>"
    using "0.prems"(2) by (simp add: loop_body_def positive_rates_def decay_def)
  have "evolution_loop ex decay tmax maxrate \<sigma> = Some (Inr \<sigma>)" for tmax
    by (subst evolution_loop.simps) (simp add: body)
  with "0.prems" show ?case by auto
next
  case (Suc n)
  let ?w = "fst (ex (1 / real (Suc n)) (sim_rng \<sigma>))"
  let ?\<sigma>' = "\<sigma>\<lparr>sim_t := sim_t \<sigma> + ?w, sim_state := int n,
                   sim_ts := sim_ts \<sigma> @ [sim_t \<sigma> + ?w],
                   sim_history := sim_history \<sigma> @ [int n],
                   sim_rng := snd (ex (1 / real (Suc n)) (sim_rng \<sigma>))\<rparr>"
  have body: "loop_body ex decay maxrate \<sigma> = Next ?\<sigma>'"
    using Suc.prems(1,2) by (rule decay_pass)
  have "\<exists>T. \<forall>tmax\<ge>T. \<exists>\<sigma>''. evolution_loop ex decay tmax maxrate ?\<sigma>' = Some (Inr \<sigma>'')
        \<and> sim_history \<sigma>'' \<noteq> [] \<and> last (sim_history \<sigma>'') = 0"
    using Suc.prems(1) by (intro Suc.IH) (simp_all add: under_ceiling_mono)
  then obtain T where T: "\<forall>tmax\<ge>T. \<exists>\<sigma>''. evolution_loop ex decay tmax maxrate ?\<sigma>' = Some (Inr \<sigma>'')
        \<and> sim_history \<sigma>'' \<noteq> [] \<and> last (sim_history \<sigma>'') = 0" by blast
  have "\<exists>\<sigma>''. evolution_loop ex decay tmax maxrate \<sigma> = Some (Inr \<sigma>'')
        \<and> sim_history \<sigma>'' \<noteq> [] \<and> last (sim_history \<sigma>'') = 0"
    if "max T (sim_t \<sigma> + 1) \<le> tmax" for tmax
  proof -
    from that have lt: "sim_t \<sigma> < tmax" and ge: "T \<le> tmax" by simp_all
    have "evolution_loop ex decay tmax maxrate \<sigma> = evolution_loop ex decay tmax maxrate ?\<sigma>'"
      using lt by (subst evolution_loop.simps) (simp add: body)
    with T ge show ?thesis by simp
  qed
  then show ?case by blast
qed

lemma decay_basic_pass:
  assumes "bs_state \<beta> = int (Suc n)"
  shows "basic_loop_body ex decay \<beta> =
           BasicNext (\<beta>\<lparr>bs_t := bs_t \<beta> + fst (ex (1 / real (Suc n)) (bs_rng \<beta>)),
                   bs_state := int n,
                   bs_history := bs_history \<beta> @
                      [(bs_t \<beta> + fst (ex (1 / real (Suc n)) (bs_rng \<beta>)), int n)],
                   bs_rng := snd (ex (1 / real (Suc n)) (bs_rng \<beta>))\<rparr>)"
  using assms
  by (simp add: basic_loop_body_def positive_rates_def decay_def py_min_def case_prod_beta)

lemma decay_basic_loop:
  "bs_state \<beta> = int n \<Longrightarrow> bs_history \<beta> \<noteq> [] \<Longrightarrow> snd (last (bs_history \<beta>)) = bs_state \<beta> \<Longrightarrow>
   \<exists>T. \<forall>tmax\<ge>T. \<exists>\<beta>'. basic_loop ex decay tmax \<beta> = Some (Inr \<beta>')
        \<and> bs_history \<beta>' \<noteq> [] \<and> snd (last (bs_history \<beta>')) = 0"
proof (induction n arbitrary: \<beta>)
  case 0
  have body: "basic_loop_body ex decay \<beta> = BasicBreak \<beta>"
    using "0.prems"(1) by (simp add: basic_loop_body_def positive_rates_def decay_def)
  have "basic_loop ex decay tmax \<beta> = Some (Inr \<beta>)" for tmax
    by (subst basic_loop.simps) (simp add: body)
  with "0.prems" show ?case by auto
next
  case (Suc n)
  let ?w = "fst (ex (1 / real (Suc n)) (bs_rng \<beta>))"
  let ?\<beta>' = "\<beta>\<lparr>bs_t := bs_t \<beta> + ?w, bs_state := int n,
                   bs_history := bs_history \<beta> @ [(bs_t \<beta> + ?w, int n)],
                   bs_rng := snd (ex (1 / real (Suc n)) (bs_rng \<beta>))\<rparr>"
  have body: "basic_loop_body ex decay \<beta> = BasicNext ?\<beta>'"
    using Suc.prems(1) by (rule decay_basic_pass)
  have "\<exists>T. \<forall>tmax\<ge>T. \<exists>\<beta>''. basic_loop ex decay tmax ?\<beta>' = Some (Inr \<beta>'')
        \<and> bs_history \<beta>'' \<noteq> [] \<and> snd (last (bs_history \<beta>'')) = 0"
    by (intro Suc.IH) simp_all
  then obtain T where T: "\<forall>tmax\<ge>T. \<exists>\<beta>''. basic_loop ex decay tmax ?\<beta>' = Some (Inr \<beta>'')
        \<and> bs_history \<beta>'' \<noteq> [] \<and> snd (last (bs_history \<beta>'')) = 0" by blast
  have "\<exists>\<beta>''. basic_loop ex decay tmax \<beta> = Some (Inr \<beta>'')
        \<and> bs_history \<beta>'' \<noteq> [] \<and> snd (last (bs_history \<beta>'')) = 0"
    if "max T (bs_t \<beta> + 1) \<le> tmax" for tmax
  proof -
    from that have lt: "bs_t \<beta> < tmax" and ge: "T \<le> tmax" by simp_all
    have "basic_loop ex decay tmax \<beta> = basic_loop ex decay tmax ?\<beta>'"
      using lt by (subst basic_loop.simps) (simp add: body)
    with T ge show ?thesis by simp
  qed
  then show ?case by blast
qed

lemma linspace_Inr:
  assumes "2 \<le> n"
  shows "\<exists>xs. linspace a b n = Inr xs \<and> length xs = nat n \<and> hd xs = a \<and> last xs = b
           \<and> (\<forall>i<nat n. xs ! i = a + real i * ((b - a) / real_of_int (n - 1)))"
proof -
  let ?f = "\<lambda>i. if 1 < n \<and> int i = n - 1 then b
                 else a + real i * ((b - a) / real_of_int (n - 1))"
  let ?xs = "map ?f [0..<nat n]"
  have eq: "linspace a b n = Inr ?xs" using assms by (simp add: linspace_def)
  have len: "length ?xs = nat n" by simp
  have ne: "[0..<nat n] \<noteq> []" using assms by simp
  have h: "hd ?xs = a" using assms ne by (simp add: hd_map hd_upt)
  have "last ?xs = ?f (nat n - 1)" using ne by (simp add: last_map)
  also have "\<dots> = b" using assms by (simp add: of_nat_diff)
  finally have l: "last ?xs = b" .
  have nth: "?xs ! i = a + real i * ((b - a) / real_of_int (n - 1))" if "i < nat n" for i
  proof (cases "int i = n - 1")
    case True
    then have ri: "real i = real_of_int (n - 1)" by (metis of_int_of_nat_eq)
    have nz: "real_of_int (n - 1) \<noteq> 0" using assms by simp
    have "a + real i * ((b - a) / real_of_int (n - 1)) = b"
      unfolding ri using nz by (simp add: field_simps)
    moreover have "?xs ! i = b" using that True assms by simp
    ultimately show ?thesis by simp
  next
    case False
    then show ?thesis using that by simp
  qed
  from eq len h l nth show ?thesis by blast
qed

text \<open>
  C9. For the pure-decay transition function \<^verbatim>\<open>{state - 1: state}\<close>, started from a
  positive integer state whose rate is under the ceiling, there is a time \<open>T\<close> such that
  for every \<open>tmax \<ge> T\<close> the run returns (it neither raises nor loops forever), and the
  last state of the returned trajectory is 0. This holds for both simulators and every
  sampler.
\<close>

theorem decay_run_halts_at_zero:
  assumes "0 < n" and "under_ceiling maxrate n"
  shows "(\<exists>T. \<forall>tmax\<ge>T. \<exists>r. evolution ex decay (tmin, tmax) n None maxrate g = Some (Inr r)
             \<and> run_history r \<noteq> [] \<and> last (run_history r) = 0)
       \<and> (\<exists>T. \<forall>tmax\<ge>T. \<exists>h g''. evolution_basic ex' decay (PyNumber tmax) n None g' = Some (Inr (h, g''))
             \<and> h \<noteq> [] \<and> snd (last h) = 0)"
proof
  have n: "n = int (nat n)" using assms(1) by simp
  have "\<exists>T. \<forall>tmax\<ge>T. \<exists>\<sigma>'. evolution_loop ex decay tmax maxrate (initial_sim tmin n g) = Some (Inr \<sigma>')
        \<and> sim_history \<sigma>' \<noteq> [] \<and> last (sim_history \<sigma>') = 0"
    using assms(2) n by (intro decay_loop[of maxrate "nat n"]) simp_all
  then obtain T where T: "\<forall>tmax\<ge>T. \<exists>\<sigma>'. evolution_loop ex decay tmax maxrate (initial_sim tmin n g) = Some (Inr \<sigma>')
        \<and> sim_history \<sigma>' \<noteq> [] \<and> last (sim_history \<sigma>') = 0" by blast
  have "\<exists>r. evolution ex decay (tmin, tmax) n None maxrate g = Some (Inr r)
             \<and> run_history r \<noteq> [] \<and> last (run_history r) = 0" if "T \<le> tmax" for tmax
  proof -
    from T that obtain \<sigma>' where
      "evolution_loop ex decay tmax maxrate (initial_sim tmin n g) = Some (Inr \<sigma>')"
      "sim_history \<sigma>' \<noteq> []" "last (sim_history \<sigma>') = 0" by blast
    then show ?thesis by (simp add: evolution_def)
  qed
  then show "\<exists>T. \<forall>tmax\<ge>T. \<exists>r. evolution ex decay (tmin, tmax) n None maxrate g = Some (Inr r)
             \<and> run_history r \<noteq> [] \<and> last (run_history r) = 0" by blast
next
  have n: "n = int (nat n)" using assms(1) by simp
  have "\<exists>T. \<forall>tmax\<ge>T. \<exists>\<beta>'. basic_loop ex' decay tmax (initial_basic_sim 0 n g') = Some (Inr \<beta>')
        \<and> bs_history \<beta>' \<noteq> [] \<and> snd (last (bs_history \<beta>')) = 0"
    using n by (intro decay_basic_loop[of _ "nat n"]) (simp_all add: initial_basic_sim_def)
  then obtain T where T: "\<forall>tmax\<ge>T. \<exists>\<beta>'. basic_loop ex' decay tmax (initial_basic_sim 0 n g') = Some (Inr \<beta>')
        \<and> bs_history \<beta>' \<noteq> [] \<and> snd (last (bs_history \<beta>')) = 0" by blast
  have "\<exists>h g''. evolution_basic ex' decay (PyNumber tmax) n None g' = Some (Inr (h, g''))
             \<and> h \<noteq> [] \<and> snd (last h) = 0" if "T \<le> tmax" for tmax
  proof -
    from linspace_Inr[of 50 0 tmax] obtain ts' where
      ts: "linspace 0 tmax 50 = Inr ts'" "length ts' = nat 50" "hd ts' = 0" "last ts' = tmax"
      by auto
    then have ne: "ts' \<noteq> []" by auto
    from T that obtain \<beta>' where
      "basic_loop ex' decay tmax (initial_basic_sim 0 n g') = Some (Inr \<beta>')"
      "bs_history \<beta>' \<noteq> []" "snd (last (bs_history \<beta>')) = 0" by blast
    then show ?thesis using ts ne by (simp add: evolution_basic_def)
  qed
  then show "\<exists>T. \<forall>tmax\<ge>T. \<exists>h g''. evolution_basic ex' decay (PyNumber tmax) n None g' = Some (Inr (h, g''))
             \<and> h \<noteq> [] \<and> snd (last h) = 0" by blast
qed

theorem decay_run_halts_at_zero_witness:
  "(0::int) < 3 \<and> under_ceiling (Some 1000000) 3
   \<and> (\<exists>T. \<forall>tmax\<ge>T. \<exists>r. evolution mean_sampler decay (0, tmax) 3 None (Some 1000000) () = Some (Inr r)
             \<and> run_history r \<noteq> [] \<and> last (run_history r) = 0)
   \<and> (\<exists>T. \<forall>tmax\<ge>T. \<exists>h g''. evolution_basic mean_sampler decay (PyNumber tmax) 3 None () = Some (Inr (h, g''))
             \<and> h \<noteq> [] \<and> snd (last h) = 0)"
proof -
  have u: "under_ceiling (Some 1000000) 3" by (simp add: under_ceiling_def)
  from decay_run_halts_at_zero[of 3 "Some 1000000" mean_sampler 0 "()" mean_sampler "()"] u
  show ?thesis by simp
qed

subsection \<open>The recorded trajectory\<close>

lemma sorted_wrt_less_last:
  "sorted_wrt (<) xs \<Longrightarrow> x \<in> set xs \<Longrightarrow> x \<le> last (xs :: real list)"
proof (induction xs)
  case Nil then show ?case by simp
next
  case (Cons a xs)
  then show ?case by (cases "xs = []") (auto intro: less_imp_le order_trans)
qed

lemma candidates_positive: "(k, r) \<in> set (candidates maxrate tr) \<Longrightarrow> 0 < r"
  by (auto simp: candidates_def split: option.splits if_splits)

lemma race_result_positive:
  assumes "positive_sampler ex" and "race_result ex C g k w"
    and "\<And>k r. (k, r) \<in> set C \<Longrightarrow> 0 < r"
  shows "0 < w"
proof -
  let ?times = "fst (times_to_move ex C g)"
  from assms(2) have len: "length ?times = length C" and mem: "(k, w) \<in> set ?times"
    by (simp_all add: race_result_def Let_def)
  from mem obtain i where i: "i < length ?times" "?times ! i = (k, w)"
    by (auto simp: in_set_conv_nth)
  with len have iC: "i < length C" by simp
  from times_to_move_nth[OF iC, of ex g] i(2)
  have w: "w = fst (ex (1 / snd (C ! i)) (snd (times_to_move ex (take i C) g)))" by simp
  have "0 < snd (C ! i)" using assms(3)[of "fst (C ! i)" "snd (C ! i)"] iC by simp
  then have "0 < 1 / snd (C ! i)" by simp
  with assms(1) show ?thesis unfolding w positive_sampler_def by blast
qed

lemma loop_body_trajectory_ok:
  assumes "positive_sampler ex" and "trajectory_ok tmin s0 \<sigma>"
  shows "loop_body ex f maxrate \<sigma> = Next \<sigma>' \<Longrightarrow> trajectory_ok tmin s0 \<sigma>' \<and> sim_t \<sigma> < sim_t \<sigma>'"
    and "loop_body ex f maxrate \<sigma> = Break \<sigma>' \<Longrightarrow> trajectory_ok tmin s0 \<sigma>'"
proof -
  let ?C = "candidates maxrate (f (sim_t \<sigma>) (sim_state \<sigma>))"
  {
    assume nx: "loop_body ex f maxrate \<sigma> = Next \<sigma>'"
    have ne: "?C \<noteq> []"
    proof
      assume "?C = []"
      then have "\<exists>\<sigma>''. loop_body ex f maxrate \<sigma> = Break \<sigma>''"
        by (simp add: loop_body_candidates)
      with nx show False by auto
    qed
    from loop_body_Next[of maxrate f \<sigma> ex] ne obtain k w where
      body: "loop_body ex f maxrate \<sigma> =
               Next (\<sigma>\<lparr>sim_t := sim_t \<sigma> + w, sim_state := k,
                       sim_ts := sim_ts \<sigma> @ [sim_t \<sigma> + w],
                       sim_history := sim_history \<sigma> @ [k],
                       sim_rng := snd (times_to_move ex ?C (sim_rng \<sigma>))\<rparr>)"
      and rr: "race_result ex ?C (sim_rng \<sigma>) k w"
      by blast
    have w: "0 < w"
      using assms(1) rr candidates_positive by (rule race_result_positive)
    from nx body have \<sigma>': "\<sigma>' = \<sigma>\<lparr>sim_t := sim_t \<sigma> + w, sim_state := k,
                       sim_ts := sim_ts \<sigma> @ [sim_t \<sigma> + w],
                       sim_history := sim_history \<sigma> @ [k],
                       sim_rng := snd (times_to_move ex ?C (sim_rng \<sigma>))\<rparr>" by simp
    have below: "x < sim_t \<sigma> + w" if "x \<in> set (sim_ts \<sigma>)" for x
    proof -
      from assms(2) have "sorted_wrt (<) (sim_ts \<sigma>)" "last (sim_ts \<sigma>) = sim_t \<sigma>"
        by (simp_all add: trajectory_ok_def)
      with sorted_wrt_less_last[OF this(1) that] w show ?thesis by simp
    qed
    have "trajectory_ok tmin s0 \<sigma>'"
      using assms(2) below unfolding \<sigma>' trajectory_ok_def
      by (simp add: sorted_wrt_append)
    moreover have "sim_t \<sigma> < sim_t \<sigma>'" using w unfolding \<sigma>' by simp
    ultimately show "trajectory_ok tmin s0 \<sigma>' \<and> sim_t \<sigma> < sim_t \<sigma>'" ..
  }
  {
    assume br: "loop_body ex f maxrate \<sigma> = Break \<sigma>'"
    then have "\<sigma>' = \<sigma> \<or> \<sigma>' = \<sigma>\<lparr>sim_warnings :=
                   sim_warnings \<sigma> @ [RuntimeWarning_maxrate (the maxrate) (sim_t \<sigma>)]\<rparr>"
      using race_Next[of ?C ex \<sigma>]
      by (auto simp: loop_body_candidates split: if_splits)
    with assms(2) show "trajectory_ok tmin s0 \<sigma>'"
      by (auto simp: trajectory_ok_def)
  }
qed

lemma evolution_loop_trajectory_ok:
  assumes pos: "positive_sampler ex"
    and run: "evolution_loop ex f tmax maxrate \<sigma> = Some (Inr \<sigma>')"
    and ok: "trajectory_ok tmin s0 \<sigma>"
  shows "trajectory_ok tmin s0 \<sigma>'"
proof -
  define P where "P = (\<lambda>(ex' :: 'a sampler) (f' :: real \<Rightarrow> 'b \<Rightarrow> 'b transitions) (tmax' :: real)
      (maxrate' :: real option) (\<sigma> :: ('b, 'a) sim) (y :: error + ('b, 'a) sim).
      ex' = ex \<and> f' = f \<and> maxrate' = maxrate \<longrightarrow> trajectory_ok tmin s0 \<sigma> \<longrightarrow>
      (\<forall>\<sigma>'. y = Inr \<sigma>' \<longrightarrow> trajectory_ok tmin s0 \<sigma>'))"
  have "P ex f tmax maxrate \<sigma> (Inr \<sigma>')"
  proof (rule evolution_loop.raw_induct[of P, OF _ run])
    fix loop ex' f' tmax' maxrate' and \<tau> :: "('b, 'a) sim" and y
    assume IH: "\<And>f tmax maxrate \<sigma> b y. loop f tmax maxrate \<sigma> b = Some y \<Longrightarrow> P f tmax maxrate \<sigma> b y"
      and eq: "(if sim_t \<tau> < tmax'
                then case loop_body ex' f' maxrate' \<tau> of
                       Break \<sigma>' \<Rightarrow> Some (Inr \<sigma>') | Raise e \<Rightarrow> Some (Inl e)
                     | Next \<sigma>' \<Rightarrow> loop ex' f' tmax' maxrate' \<sigma>'
                else Some (Inr \<tau>)) = Some y"
    show "P ex' f' tmax' maxrate' \<tau> y"
      unfolding P_def
    proof (intro impI allI, elim conjE)
      fix \<tau>'
      assume e: "ex' = ex" "f' = f" "maxrate' = maxrate"
        and t: "trajectory_ok tmin s0 \<tau>" and y: "y = Inr \<tau>'"
      show "trajectory_ok tmin s0 \<tau>'"
      proof (cases "sim_t \<tau> < tmax'")
        case False
        with eq y t show ?thesis by simp
      next
        case True
        show ?thesis
        proof (cases "loop_body ex f maxrate \<tau>")
          case (Break \<tau>'')
          with eq True e y have "\<tau>' = \<tau>''" by simp
          with loop_body_trajectory_ok(2)[OF pos t Break] show ?thesis by simp
        next
          case (Raise err)
          with eq True e y show ?thesis by simp
        next
          case (Next \<tau>'')
          with eq True e have "loop ex f tmax' maxrate \<tau>'' = Some y" by simp
          from IH[OF this] loop_body_trajectory_ok(1)[OF pos t Next] y
          show ?thesis by (simp add: P_def)
        qed
      qed
    qed
  qed
  with ok show ?thesis by (simp add: P_def)
qed

text \<open>
  The simulator with a time span records a trajectory that starts at \<open>(tmin, state0)\<close>
  and whose times increase strictly, whenever the sampler returns positive variates.
\<close>

lemma evolution_trajectory_increasing:
  assumes "positive_sampler ex"
    and "evolution ex f (tmin, tmax) state0 None maxrate g = Some (Inr r)"
  shows "hd (zip (run_ts r) (run_history r)) = (tmin, state0)
       \<and> length (run_ts r) = length (run_history r)
       \<and> sorted_wrt (<) (run_ts r)"
proof -
  from assms(2) obtain \<sigma>' where
    run: "evolution_loop ex f tmax maxrate (initial_sim tmin state0 g) = Some (Inr \<sigma>')"
    and r: "run_ts r = sim_ts \<sigma>'" "run_history r = sim_history \<sigma>'"
    by (auto simp: evolution_def split: option.splits sum.splits)
  have "trajectory_ok tmin state0 (initial_sim tmin state0 g)"
    by (simp add: trajectory_ok_def)
  from evolution_loop_trajectory_ok[OF assms(1) run this]
  have ok: "trajectory_ok tmin state0 \<sigma>'" .
  then have "hd (zip (sim_ts \<sigma>') (sim_history \<sigma>')) = (tmin, state0)"
    by (cases "sim_ts \<sigma>'"; cases "sim_history \<sigma>'") (auto simp: trajectory_ok_def)
  with ok r show ?thesis by (simp add: trajectory_ok_def)
qed

text \<open>
  C3. The earlier simulator enters the loop at \<open>t = ts[0]\<close> but records the initial
  event at time 0: called with the times \<open>[1, 2]\<close> it returns a trajectory whose first
  entry is \<open>(0, state0)\<close>, not \<open>(1, state0)\<close>; called with the times \<open>[-5, 5]\<close> on the
  pure-decay process it returns the times \<open>0, -4\<close>, which do not increase.
\<close>

theorem basic_trajectory_starts_at_zero:
  "evolution_basic mean_sampler absorbing (NdArray [1, 2]) 5 None () = Some (Inr ([(0, 5)], ()))
   \<and> evolution_basic mean_sampler decay (NdArray [- 5, 5]) 1 None () =
       Some (Inr ([(0, 1), (- 4, 0)], ()))"
proof
  show "evolution_basic mean_sampler absorbing (NdArray [1, 2]) 5 None () = Some (Inr ([(0, 5)], ()))"
    by (simp add: evolution_basic_def initial_basic_sim_def basic_loop.simps
        basic_loop_body_def positive_rates_def absorbing_def)
next
  let ?\<beta>0 = "initial_basic_sim (- 5) (1::int) ()"
  let ?\<beta>1 = "\<lparr>bs_t = - 4, bs_state = 0::int, bs_history = [(0, 1), (- 4, 0)], bs_rng = ()\<rparr>"
  have b0: "basic_loop_body mean_sampler decay ?\<beta>0 = BasicNext ?\<beta>1"
    by (simp add: basic_loop_body_def positive_rates_def decay_def mean_sampler_def py_min_def
        initial_basic_sim_def)
  have b1: "basic_loop_body mean_sampler decay ?\<beta>1 = BasicBreak ?\<beta>1"
    by (simp add: basic_loop_body_def positive_rates_def decay_def)
  have l1: "basic_loop mean_sampler decay 5 ?\<beta>1 = Some (Inr ?\<beta>1)"
    by (subst basic_loop.simps) (simp add: b1)
  have "basic_loop mean_sampler decay 5 ?\<beta>0 = Some (Inr ?\<beta>1)"
    by (subst basic_loop.simps) (simp add: b0[unfolded initial_basic_sim_def] l1 initial_basic_sim_def)
  then show "evolution_basic mean_sampler decay (NdArray [- 5, 5]) 1 None () =
       Some (Inr ([(0, 1), (- 4, 0)], ()))"
    by (simp add: evolution_basic_def)
qed

subsection \<open>Resampling\<close>

text \<open>
  The earlier simulator looks each query time up in the recorded history; on the events
  \<open>(0, A), (1.2, B), (3.5, C)\<close> the queries \<open>0, 1, 1.2, 2, 5\<close> give \<open>A, A, B, B, C\<close>.
\<close>

lemma resampled_history_example:
  "resampled_history [(0, A), (6 / 5, B), (7 / 2, C)] [0, 1, 6 / 5, 2, 5] =
     Inr [(0, A), (1, A), (6 / 5, B), (2, B), (5, C)]"
  by (simp add: last_event_def)

lemma interp1d_previous_example:
  "interp_all (interp1d_previous [0, 6 / 5, 7 / 2] [A, B, C]) [0, 1, 6 / 5, 2] = Inr [A, A, B, B]"
  "interp1d_previous [0, 6 / 5, 7 / 2] [A, B, C] 5 = Inl ValueError"
  by (simp_all add: interp1d_previous_def)

text \<open>
  C7. In the simulator with a time span the resampling is delegated to
  \<^verbatim>\<open>interp1d(ts, history, kind='previous', axis=0)\<close>, which rejects a query beyond the
  last recorded time: on the pure-decay run with events at times \<open>0, 1.2, 3.5\<close> (states
  \<open>2, 1, 0\<close>) the query times \<open>0, 1, 1.2, 2, 5\<close> make the call raise ValueError instead
  of returning the states \<open>2, 2, 1, 1, 0\<close>.
\<close>

theorem resample_after_last_event_raises:
  "evolution tape_sampler decay (0, 10) 2 (Some [0, 1, 6 / 5, 2, 5]) (Some 1000000)
     [6 / 5, 23 / 10] = Some (Inl ValueError)"
proof -
  let ?s0 = "initial_sim 0 (2::int) [6 / 5, 23 / 10 :: real]"
  let ?s1 = "\<lparr>sim_t = 6 / 5, sim_state = 1::int, sim_ts = [0, 6 / 5], sim_history = [2, 1],
              sim_warnings = [], sim_rng = [23 / 10 :: real]\<rparr>"
  let ?s2 = "\<lparr>sim_t = 7 / 2, sim_state = 0::int, sim_ts = [0, 6 / 5, 7 / 2],
              sim_history = [2, 1, 0], sim_warnings = [], sim_rng = [] :: real list\<rparr>"
  have b0: "loop_body tape_sampler decay (Some 1000000) ?s0 = Next ?s1"
    by (simp add: loop_body_def positive_rates_def below_maxrate_def truthy_def race_def
        decay_def tape_sampler_def py_min_def initial_sim_def)
  have b1: "loop_body tape_sampler decay (Some 1000000) ?s1 = Next ?s2"
    by (simp add: loop_body_def positive_rates_def below_maxrate_def truthy_def race_def
        decay_def tape_sampler_def py_min_def)
  have b2: "loop_body tape_sampler decay (Some 1000000) ?s2 = Break ?s2"
    by (simp add: loop_body_def positive_rates_def decay_def)
  have l2: "evolution_loop tape_sampler decay 10 (Some 1000000) ?s2 = Some (Inr ?s2)"
    by (subst evolution_loop.simps) (simp add: b2)
  have l1: "evolution_loop tape_sampler decay 10 (Some 1000000) ?s1 = Some (Inr ?s2)"
    by (subst evolution_loop.simps) (simp add: b1 l2)
  have l0: "evolution_loop tape_sampler decay 10 (Some 1000000) ?s0 = Some (Inr ?s2)"
    by (subst evolution_loop.simps) (simp add: b0 l1)
  show ?thesis
    by (simp add: evolution_def l0 interp1d_previous_def)
qed

text \<open>
  The earlier simulator returns them on the same run, and in general maps a query to an
  event of largest time among those at or before it.
\<close>

lemma basic_resample_after_last_event:
  "evolution_basic tape_sampler decay (NdArray [0, 10]) 2 (Some [0, 1, 6 / 5, 2, 5])
     [6 / 5, 23 / 10] = Some (Inr ([(0, 2), (1, 2), (6 / 5, 1), (2, 1), (5, 0)], []))"
proof -
  let ?s0 = "initial_basic_sim 0 (2::int) [6 / 5, 23 / 10 :: real]"
  let ?s1 = "\<lparr>bs_t = 6 / 5, bs_state = 1::int, bs_history = [(0, 2), (6 / 5, 1)],
              bs_rng = [23 / 10 :: real]\<rparr>"
  let ?s2 = "\<lparr>bs_t = 7 / 2, bs_state = 0::int, bs_history = [(0, 2), (6 / 5, 1), (7 / 2, 0)],
              bs_rng = [] :: real list\<rparr>"
  have b0: "basic_loop_body tape_sampler decay ?s0 = BasicNext ?s1"
    by (simp add: basic_loop_body_def positive_rates_def
        decay_def tape_sampler_def py_min_def initial_basic_sim_def)
  have b1: "basic_loop_body tape_sampler decay ?s1 = BasicNext ?s2"
    by (simp add: basic_loop_body_def positive_rates_def
        decay_def tape_sampler_def py_min_def)
  have b2: "basic_loop_body tape_sampler decay ?s2 = BasicBreak ?s2"
    by (simp add: basic_loop_body_def positive_rates_def decay_def)
  have l2: "basic_loop tape_sampler decay 10 ?s2 = Some (Inr ?s2)"
    by (subst basic_loop.simps) (simp add: b2)
  have l1: "basic_loop tape_sampler decay 10 ?s1 = Some (Inr ?s2)"
    by (subst basic_loop.simps) (simp add: b1 l2)
  have t0: "bs_t ?s0 = 0" by (simp add: initial_basic_sim_def)
  have l0: "basic_loop tape_sampler decay 10 ?s0 = Some (Inr ?s2)"
    by (subst basic_loop.simps) (simp add: b0 l1 t0)
  show ?thesis
    by (simp add: evolution_basic_def l0 last_event_def)
qed

lemma max_from_mem: "max_from b hs \<in> set (b # hs)"
proof (induction hs arbitrary: b)
  case Nil then show ?case by simp
next
  case (Cons h hs)
  from Cons.IH[of "if fst b < fst h then h else b"] show ?case
    by (auto split: if_splits)
qed

lemma max_from_ge_best: "fst b \<le> fst (max_from b hs)"
proof (induction hs arbitrary: b)
  case Nil then show ?case by simp
next
  case (Cons h hs)
  from Cons.IH[of "if fst b < fst h then h else b"] show ?case
    by (auto split: if_splits)
qed

lemma max_from_ge: "y \<in> set hs \<Longrightarrow> fst y \<le> fst (max_from b hs)"
proof (induction hs arbitrary: b)
  case Nil then show ?case by simp
next
  case (Cons h hs)
  show ?case
  proof (cases "y = h")
    case True
    have "fst (if fst b < fst h then h else b) \<le> fst (max_from (if fst b < fst h then h else b) hs)"
      by (rule max_from_ge_best)
    then show ?thesis using True by (auto split: if_splits)
  next
    case False
    with Cons.prems have "y \<in> set hs" by simp
    from Cons.IH[OF this] show ?thesis by simp
  qed
qed

lemma last_event_most_recent:
  assumes "h0 \<in> set history" and "fst h0 \<le> q"
  shows "\<exists>ev. last_event history q = Inr ev \<and> ev \<in> set history \<and> fst ev \<le> q
           \<and> (\<forall>h \<in> set history. fst h \<le> q \<longrightarrow> fst h \<le> fst ev)"
proof -
  let ?F = "filter (\<lambda>h. fst h \<le> q) history"
  from assms have "h0 \<in> set ?F" by simp
  then obtain h hs where F: "?F = h # hs" by (cases ?F) auto
  have mem: "max_from h hs \<in> set ?F" unfolding F by (rule max_from_mem)
  have ge: "\<forall>y \<in> set ?F. fst y \<le> fst (max_from h hs)"
    unfolding F using max_from_ge_best[of h hs] max_from_ge[of _ hs h] by auto
  have "last_event history q = Inr (max_from h hs)" by (simp add: last_event_def F)
  with mem ge show ?thesis by auto
qed

section \<open>Properties of the discretisation\<close>

subsection \<open>Shapes and slice assignments\<close>

lemma square_nth: "square n m \<Longrightarrow> i < n \<Longrightarrow> length (m ! i) = n"
  by (simp add: square_def list_all_length)

lemma square_length: "square n m \<Longrightarrow> length m = n"
  by (simp add: square_def)

lemma square_update: "square n m \<Longrightarrow> length row = n \<Longrightarrow> square n (m[i := row])"
  by (auto simp: square_def list_all_iff dest: set_update_subset_insert[THEN subsetD])

lemma square_eye: "square n (eye n)"
  by (simp add: square_def eye_def list_all_iff)

lemma square_roll: "square n m \<Longrightarrow> square n (roll m s)"
  by (simp add: square_def roll_def roll_row_def list_all_iff)

lemma square_mscale: "square n m \<Longrightarrow> square n (mscale c m)"
  by (simp add: square_def mscale_def list_all_iff)

lemma square_mdiv: "square n m \<Longrightarrow> square n (mdiv m c)"
  by (simp add: square_def mdiv_def list_all_iff)

lemma square_map2:
  assumes "square n a" and "square n b"
  shows "square n (map2 (map2 f) a b)"
proof -
  have "length (map2 f (fst p) (snd p)) = n" if "p \<in> set (zip a b)" for p
  proof -
    obtain x y where p: "p = (x, y)" by (cases p)
    from that have "x \<in> set a" "y \<in> set b"
      unfolding p by (auto dest: set_zip_leftD set_zip_rightD)
    with assms show ?thesis by (simp add: square_def list_all_iff p)
  qed
  then show ?thesis using assms by (auto simp: square_def list_all_iff)
qed

lemma square_madd: "square n a \<Longrightarrow> square n b \<Longrightarrow> square n (madd a b)"
  unfolding madd_def by (rule square_map2)

lemma square_msub: "square n a \<Longrightarrow> square n b \<Longrightarrow> square n (msub a b)"
  unfolding msub_def by (rule square_map2)

lemma py_index_first: "0 < n \<Longrightarrow> py_index 0 n = Inr 0"
  by (simp add: py_index_def)

lemma py_index_nat: "i < n \<Longrightarrow> py_index (int i) n = Inr i"
  by (simp add: py_index_def)

lemma py_index_from_end: "0 < k \<Longrightarrow> k \<le> n \<Longrightarrow> py_index (- int k) n = Inr (n - k)"
  by (auto simp: py_index_def Let_def)

lemma fill_slice_row:
  assumes "square n m" and "py_index r n = Inr i" and "slice_range lo hi n = (a, b)"
  shows "fill_slice r lo hi c m = Inr (m[i := take a (m ! i) @ replicate (b - a) c @ drop b (m ! i)])"
proof -
  from assms(2) have "i < n" by (auto simp: py_index_def Let_def split: if_splits)
  with assms(1) have "length (m ! i) = n" by (rule square_nth)
  with assms show ?thesis by (simp add: fill_slice_def then_do_def square_length Let_def)
qed

lemma set_slice_row:
  assumes "square n m" and "py_index r n = Inr i" and "slice_range lo hi n = (a, b)"
    and "b - a = length vals"
  shows "set_slice r lo hi vals m = Inr (m[i := take a (m ! i) @ vals @ drop b (m ! i)])"
proof -
  from assms(2) have "i < n" by (auto simp: py_index_def Let_def split: if_splits)
  with assms(1) have "length (m ! i) = n" by (rule square_nth)
  with assms show ?thesis by (simp add: set_slice_def then_do_def square_length Let_def)
qed

lemma one_sided_rows_Inr:
  assumes sq: "square n m" and n: "4 \<le> n" and fw: "length fw = 4" and bw: "length bw = 4"
  shows "one_sided_rows fw bw m =
           Inr (m[0 := fw @ replicate (n - 4) 0, n - 1 := replicate (n - 4) 0 @ bw])"
proof -
  let ?m1 = "m[0 := take 4 (m ! 0) @ replicate (n - 4) 0]"
  let ?m2 = "m[0 := fw @ replicate (n - 4) 0]"
  let ?m3 = "?m2[n - 1 := replicate (n - 4) 0 @ drop (n - 4) (?m2 ! (n - 1))]"
  let ?m4 = "m[0 := fw @ replicate (n - 4) 0, n - 1 := replicate (n - 4) 0 @ bw]"
  have len0: "length (m ! 0) = n" using sq n by (intro square_nth) simp_all
  have lenm: "length m = n" using sq by (rule square_length)
  have i0: "py_index 0 n = Inr 0" using n by (simp add: py_index_first)
  have il: "py_index (- 1) n = Inr (n - 1)" using py_index_from_end[of 1 n] n by simp
  have r1: "slice_range (Some 4) None n = (4, n)"
    using n by (simp add: slice_range_def slice_bound_def)
  have r2: "slice_range None (Some 4) n = (0, 4)"
    using n by (simp add: slice_range_def slice_bound_def)
  have r3: "slice_range None (Some (- 4)) n = (0, n - 4)"
    using n by (simp add: slice_range_def slice_bound_def)
  have r4: "slice_range (Some (- 4)) None n = (n - 4, n)"
    using n by (simp add: slice_range_def slice_bound_def)
  have s1: "fill_slice 0 (Some 4) None 0 m = Inr ?m1"
    using fill_slice_row[OF sq i0 r1, of 0] len0 by simp
  have sq1: "square n ?m1" using len0 n by (intro square_update[OF sq]) simp
  have "set_slice 0 None (Some 4) fw ?m1 = Inr (?m1[0 := take 0 (?m1 ! 0) @ fw @ drop 4 (?m1 ! 0)])"
    using fw by (intro set_slice_row[OF sq1 i0 r2]) simp
  also have "?m1[0 := take 0 (?m1 ! 0) @ fw @ drop 4 (?m1 ! 0)] = ?m2"
    using lenm n len0 by simp
  finally have s2: "set_slice 0 None (Some 4) fw ?m1 = Inr ?m2" .
  have sq2: "square n ?m2" using fw n by (intro square_update[OF sq]) simp
  have s3: "fill_slice (- 1) None (Some (- 4)) 0 ?m2 = Inr ?m3"
    using fill_slice_row[OF sq2 il r3, of 0] by simp
  have len2: "length (?m2 ! (n - 1)) = n" using sq2 n by (intro square_nth) simp_all
  have sq3: "square n ?m3" using len2 n by (intro square_update[OF sq2]) simp
  have "set_slice (- 1) (Some (- 4)) None bw ?m3 =
          Inr (?m3[n - 1 := take (n - 4) (?m3 ! (n - 1)) @ bw @ drop n (?m3 ! (n - 1))])"
    using bw n by (intro set_slice_row[OF sq3 il r4]) simp
  also have "?m3[n - 1 := take (n - 4) (?m3 ! (n - 1)) @ bw @ drop n (?m3 ! (n - 1))] = ?m4"
    using lenm n len2 by simp
  finally have s4: "set_slice (- 1) (Some (- 4)) None bw ?m3 = Inr ?m4" .
  show ?thesis by (simp only: one_sided_rows_def then_do_def s1 s2 s3 s4 sum.case)
qed

subsection \<open>What \<^verbatim>\<open>discretise\<close> returns\<close>

lemma set_entry_Inr:
  assumes "square n m" and "py_index r n = Inr i" and "py_index c n = Inr j"
  shows "set_entry r c v m = Inr (m[i := (m ! i)[j := v]])"
proof -
  from assms(2) have "i < n" by (auto simp: py_index_def Let_def split: if_splits)
  with assms(1) have "length (m ! i) = n" by (rule square_nth)
  with assms show ?thesis by (simp add: set_entry_def then_do_def square_length)
qed

lemma eye_nth: "i < n \<Longrightarrow> j < n \<Longrightarrow> eye n ! i ! j = (if i = j then 1 else 0)"
  by (simp add: eye_def)

lemma eye_row_update:
  assumes "i < n"
  shows "(eye n ! i)[i := v] = replicate i 0 @ [v] @ replicate (n - i - 1) 0"
proof (rule nth_equalityI)
  show "length ((eye n ! i)[i := v]) = length (replicate i 0 @ [v] @ replicate (n - i - 1) 0)"
    using assms by (simp add: eye_def)
next
  fix j assume "j < length ((eye n ! i)[i := v])"
  then have j: "j < n" using assms by (simp add: eye_def)
  show "(eye n ! i)[i := v] ! j = (replicate i 0 @ [v] @ replicate (n - i - 1) 0) ! j"
    using assms j by (auto simp: eye_def nth_append nth_Cons' nth_list_update)
qed

lemma neumann_eye:
  assumes n: "2 \<le> n"
  shows "then_do (set_entry 0 0 v (eye n)) (set_entry (- 1) (- 1) v) =
           Inr ((eye n)[0 := v # replicate (n - 1) 0, n - 1 := replicate (n - 1) 0 @ [v]])"
proof -
  let ?e1 = "(eye n)[0 := v # replicate (n - 1) 0]"
  have sq: "square n (eye n)" by (rule square_eye)
  have i0: "py_index 0 n = Inr 0" using n by (simp add: py_index_first)
  have il: "py_index (- 1) n = Inr (n - 1)" using py_index_from_end[of 1 n] n by simp
  have r0: "(eye n ! 0)[0 := v] = v # replicate (n - 1) 0"
    using eye_row_update[of 0 n v] n by simp
  have s1: "set_entry 0 0 v (eye n) = Inr ?e1"
    using set_entry_Inr[OF sq i0 i0, of v] by (simp only: r0)
  have sq1: "square n ?e1"
    using n by (intro square_update[OF sq]) simp
  have "?e1 ! (n - 1) = eye n ! (n - 1)" using n by simp
  then have rl: "(?e1 ! (n - 1))[n - 1 := v] = replicate (n - 1) 0 @ [v]"
    using eye_row_update[of "n - 1" n v] n by simp
  have s2: "set_entry (- 1) (- 1) v ?e1 = Inr (?e1[n - 1 := replicate (n - 1) 0 @ [v]])"
    using set_entry_Inr[OF sq1 il il, of v] by (simp only: rl)
  show ?thesis by (simp only: then_do_def s1 s2 sum.case)
qed

lemma discretise_shape:
  assumes nx: "2 \<le> nx"
  obtains xs where "linspace xa xb nx = Inr xs" and "length xs = nat nx"
    and "hd xs = xa" and "last xs = xb"
    and "\<forall>i<nat nx. xs ! i = xa + real i * ((xb - xa) / real_of_int (nx - 1))"
    and "xs ! 1 - xs ! 0 = (xb - xa) / real_of_int (nx - 1)"
proof -
  from linspace_Inr[OF nx, of xa xb] obtain xs where
    xs: "linspace xa xb nx = Inr xs" "length xs = nat nx" "hd xs = xa" "last xs = xb"
      "\<forall>i<nat nx. xs ! i = xa + real i * ((xb - xa) / real_of_int (nx - 1))"
    by blast
  from nx have "0 < nat nx" "1 < nat nx" by simp_all
  with xs(5) have "xs ! 1 - xs ! 0 = (xb - xa) / real_of_int (nx - 1)" by simp
  with xs that show ?thesis by blast
qed

lemma square_central_ddx: "square n e \<Longrightarrow> square n (central_ddx e dx)"
  unfolding central_ddx_def by (intro square_mdiv square_msub square_roll)

lemma square_central_d2dx2: "square n e \<Longrightarrow> square n (central_d2dx2 e dx)"
  unfolding central_d2dx2_def
  by (intro square_mdiv square_madd square_msub square_roll square_mscale)

lemma stencil_lengths [simp]:
  "length (ddx_forward dx) = 4" "length (ddx_backward dx) = 4"
  "length (d2dx2_forward dx) = 4" "length (d2dx2_backward dx) = 4"
  by (simp_all add: ddx_forward_def ddx_backward_def d2dx2_forward_def d2dx2_backward_def)

lemma discretise_periodic:
  assumes "2 \<le> nx" and "linspace xa xb nx = Inr xs" and "length xs = nat nx"
  shows "discretise xa xb nx ''periodic'' =
           Inr \<lparr>grid_xs = xs, grid_dx = xs ! 1 - xs ! 0, grid_eye = eye (nat nx),
                grid_ddx = central_ddx (eye (nat nx)) (xs ! 1 - xs ! 0),
                grid_d2dx2 = central_d2dx2 (eye (nat nx)) (xs ! 1 - xs ! 0)\<rparr>"
  using assms by (simp add: discretise_def then_do_def Let_def)

lemma discretise_boundary_rows:
  assumes nx: "4 \<le> nx" and lin: "linspace xa xb nx = Inr xs" and len: "length xs = nat nx"
  defines "n \<equiv> nat nx" and "dx \<equiv> xs ! Suc 0 - xs ! 0"
  defines "ddx' \<equiv> (central_ddx (eye n) dx)
                     [0 := ddx_forward dx @ replicate (n - 4) 0,
                      n - 1 := replicate (n - 4) 0 @ ddx_backward dx]"
    and "d2dx2' \<equiv> (central_d2dx2 (eye n) dx)
                     [0 := d2dx2_forward dx @ replicate (n - 4) 0,
                      n - 1 := replicate (n - 4) 0 @ d2dx2_backward dx]"
  shows "discretise xa xb nx ''dirichlet'' =
           Inr \<lparr>grid_xs = xs, grid_dx = dx, grid_eye = eye n, grid_ddx = ddx',
                grid_d2dx2 = d2dx2'\<rparr>"
    and "discretise xa xb nx ''neumann'' =
           Inr \<lparr>grid_xs = xs, grid_dx = dx,
                grid_eye = (eye n)[0 := (dx * dx) # replicate (n - 1) 0,
                                   n - 1 := replicate (n - 1) 0 @ [dx * dx]],
                grid_ddx = ddx', grid_d2dx2 = d2dx2'\<rparr>"
    and "discretise_one_sided xa xb nx =
           Inr \<lparr>grid_xs = xs, grid_dx = dx, grid_eye = eye n, grid_ddx = ddx',
                grid_d2dx2 = d2dx2'\<rparr>"
proof -
  have n4: "4 \<le> n" and n2: "2 \<le> n" using nx by (simp_all add: n_def)
  have len2: "\<not> length xs < 2" using len nx by simp
  have a: "one_sided_rows (ddx_forward dx) (ddx_backward dx) (central_ddx (eye n) dx) = Inr ddx'"
    unfolding ddx'_def
    by (rule one_sided_rows_Inr[OF square_central_ddx[OF square_eye] n4]) simp_all
  have b: "one_sided_rows (d2dx2_forward dx) (d2dx2_backward dx) (central_d2dx2 (eye n) dx) = Inr d2dx2'"
    unfolding d2dx2'_def
    by (rule one_sided_rows_Inr[OF square_central_d2dx2[OF square_eye] n4]) simp_all
  have c: "then_do (set_entry 0 0 (dx * dx) (eye n)) (set_entry (- 1) (- 1) (dx * dx)) =
             Inr ((eye n)[0 := (dx * dx) # replicate (n - 1) 0,
                          n - 1 := replicate (n - 1) 0 @ [dx * dx]])"
    by (rule neumann_eye[OF n2])
  show "discretise xa xb nx ''dirichlet'' =
           Inr \<lparr>grid_xs = xs, grid_dx = dx, grid_eye = eye n, grid_ddx = ddx',
                grid_d2dx2 = d2dx2'\<rparr>"
    using lin len2 a b
    by (simp add: discretise_def then_do_def Let_def n_def[symmetric] dx_def[symmetric])
  show "discretise_one_sided xa xb nx =
           Inr \<lparr>grid_xs = xs, grid_dx = dx, grid_eye = eye n, grid_ddx = ddx',
                grid_d2dx2 = d2dx2'\<rparr>"
    using lin len2 a b
    by (simp add: discretise_one_sided_def then_do_def Let_def n_def[symmetric] dx_def[symmetric])
  from c obtain e1 where e1: "set_entry 0 0 (dx * dx) (eye n) = Inr e1"
    and e2: "set_entry (- 1) (- 1) (dx * dx) e1 =
               Inr ((eye n)[0 := (dx * dx) # replicate (n - 1) 0,
                            n - 1 := replicate (n - 1) 0 @ [dx * dx]])"
    by (auto simp: then_do_def split: sum.splits)
  show "discretise xa xb nx ''neumann'' =
           Inr \<lparr>grid_xs = xs, grid_dx = dx,
                grid_eye = (eye n)[0 := (dx * dx) # replicate (n - 1) 0,
                                   n - 1 := replicate (n - 1) 0 @ [dx * dx]],
                grid_ddx = ddx', grid_d2dx2 = d2dx2'\<rparr>"
    using lin len2 a b e1 e2
    by (simp add: discretise_def then_do_def Let_def n_def[symmetric] dx_def[symmetric])
qed

lemma discretise_small_nx:
  "nx < 0 \<Longrightarrow> discretise xa xb nx bcs = Inl ValueError"
  "nx < 0 \<Longrightarrow> discretise_one_sided xa xb nx = Inl ValueError"
  "0 \<le> nx \<Longrightarrow> nx < 2 \<Longrightarrow> discretise xa xb nx bcs = Inl IndexError"
  "0 \<le> nx \<Longrightarrow> nx < 2 \<Longrightarrow> discretise_one_sided xa xb nx = Inl IndexError"
proof -
  show "nx < 0 \<Longrightarrow> discretise xa xb nx bcs = Inl ValueError"
    and "nx < 0 \<Longrightarrow> discretise_one_sided xa xb nx = Inl ValueError"
    by (simp_all add: discretise_def discretise_one_sided_def linspace_def then_do_def)
  assume a: "0 \<le> nx" "nx < 2"
  then have "nat nx < 2" by simp
  with a show "discretise xa xb nx bcs = Inl IndexError"
    and "discretise_one_sided xa xb nx = Inl IndexError"
    by (simp_all add: discretise_def discretise_one_sided_def linspace_def then_do_def)
qed

text \<open>
  C6 (as amended). \<^verbatim>\<open>discretise\<close> raises whenever \<open>nx < 2\<close>: ValueError (from
  \<^verbatim>\<open>np.linspace\<close>) for a negative \<open>nx\<close>, IndexError (from \<^verbatim>\<open>xs[1]\<close>) for \<open>nx\<close> 0 or 1; it
  returns no grid then. The bounds are not checked: for \<open>nx \<ge> 2\<close> and \<open>xa > xb\<close> the
  periodic call returns the \<open>nx\<close> points from \<open>xa\<close> down to \<open>xb\<close> with the negative spacing
  \<open>(xb - xa)/(nx - 1)\<close>, and so do, for \<open>nx \<ge> 4\<close>, the calls that overwrite boundary rows
  (the dirichlet and neumann calls and the later copy): same points, same spacing.
\<close>

theorem discretise_fails_only_for_small_nx:
  "(nx < 0 \<longrightarrow> discretise xa xb nx bcs = Inl ValueError
               \<and> discretise_one_sided xa xb nx = Inl ValueError)
   \<and> (0 \<le> nx \<and> nx < 2 \<longrightarrow> discretise xa xb nx bcs = Inl IndexError
               \<and> discretise_one_sided xa xb nx = Inl IndexError)
   \<and> (2 \<le> nx \<and> xb < xa \<longrightarrow>
         (\<exists>g. discretise xa xb nx ''periodic'' = Inr g
              \<and> length (grid_xs g) = nat nx \<and> hd (grid_xs g) = xa \<and> last (grid_xs g) = xb
              \<and> grid_dx g = (xb - xa) / real_of_int (nx - 1) \<and> grid_dx g < 0
              \<and> (\<forall>i<nat nx. grid_xs g ! i = xa + real i * grid_dx g)))
   \<and> (4 \<le> nx \<and> xb < xa \<longrightarrow>
         (\<exists>g. discretise xa xb nx ''dirichlet'' = Inr g
              \<and> length (grid_xs g) = nat nx \<and> hd (grid_xs g) = xa \<and> last (grid_xs g) = xb
              \<and> grid_dx g = (xb - xa) / real_of_int (nx - 1) \<and> grid_dx g < 0
              \<and> (\<forall>i<nat nx. grid_xs g ! i = xa + real i * grid_dx g))
         \<and> (\<exists>g. discretise xa xb nx ''neumann'' = Inr g
              \<and> length (grid_xs g) = nat nx \<and> hd (grid_xs g) = xa \<and> last (grid_xs g) = xb
              \<and> grid_dx g = (xb - xa) / real_of_int (nx - 1) \<and> grid_dx g < 0
              \<and> (\<forall>i<nat nx. grid_xs g ! i = xa + real i * grid_dx g))
         \<and> (\<exists>g. discretise_one_sided xa xb nx = Inr g
              \<and> length (grid_xs g) = nat nx \<and> hd (grid_xs g) = xa \<and> last (grid_xs g) = xb
              \<and> grid_dx g = (xb - xa) / real_of_int (nx - 1) \<and> grid_dx g < 0
              \<and> (\<forall>i<nat nx. grid_xs g ! i = xa + real i * grid_dx g)))"
proof (intro conjI impI)
  assume "nx < 0"
  then show "discretise xa xb nx bcs = Inl ValueError"
    and "discretise_one_sided xa xb nx = Inl ValueError"
    by (simp_all add: discretise_small_nx)
next
  assume "0 \<le> nx \<and> nx < 2"
  then show "discretise xa xb nx bcs = Inl IndexError"
    and "discretise_one_sided xa xb nx = Inl IndexError"
    by (simp_all add: discretise_small_nx)
next
  assume a: "2 \<le> nx \<and> xb < xa"
  then have nx: "2 \<le> nx" and lt: "xb < xa" by simp_all
  from discretise_shape[OF nx, of xa xb] obtain xs where
    xs: "linspace xa xb nx = Inr xs" "length xs = nat nx" "hd xs = xa" "last xs = xb"
      "\<forall>i<nat nx. xs ! i = xa + real i * ((xb - xa) / real_of_int (nx - 1))"
      "xs ! 1 - xs ! 0 = (xb - xa) / real_of_int (nx - 1)"
    by blast
  have neg: "(xb - xa) / real_of_int (nx - 1) < 0"
    using nx lt by (simp add: divide_neg_pos)
  from discretise_periodic[OF nx xs(1,2)] xs neg
  show "\<exists>g. discretise xa xb nx ''periodic'' = Inr g
              \<and> length (grid_xs g) = nat nx \<and> hd (grid_xs g) = xa \<and> last (grid_xs g) = xb
              \<and> grid_dx g = (xb - xa) / real_of_int (nx - 1) \<and> grid_dx g < 0
              \<and> (\<forall>i<nat nx. grid_xs g ! i = xa + real i * grid_dx g)"
    by simp
next
  assume a: "4 \<le> nx \<and> xb < xa"
  then have nx4: "4 \<le> nx" and nx: "2 \<le> nx" and lt: "xb < xa" by simp_all
  from discretise_shape[OF nx, of xa xb] obtain xs where
    xs: "linspace xa xb nx = Inr xs" "length xs = nat nx" "hd xs = xa" "last xs = xb"
      "\<forall>i<nat nx. xs ! i = xa + real i * ((xb - xa) / real_of_int (nx - 1))"
      "xs ! 1 - xs ! 0 = (xb - xa) / real_of_int (nx - 1)"
    by blast
  have dx: "xs ! Suc 0 - xs ! 0 = (xb - xa) / real_of_int (nx - 1)"
    using xs(6) by simp
  have neg: "(xb - xa) / real_of_int (nx - 1) < 0"
    using nx lt by (simp add: divide_neg_pos)
  from discretise_boundary_rows(1)[OF nx4 xs(1,2)] xs(2-5) dx neg
  show "\<exists>g. discretise xa xb nx ''dirichlet'' = Inr g
              \<and> length (grid_xs g) = nat nx \<and> hd (grid_xs g) = xa \<and> last (grid_xs g) = xb
              \<and> grid_dx g = (xb - xa) / real_of_int (nx - 1) \<and> grid_dx g < 0
              \<and> (\<forall>i<nat nx. grid_xs g ! i = xa + real i * grid_dx g)"
    by simp
  from discretise_boundary_rows(2)[OF nx4 xs(1,2)] xs(2-5) dx neg
  show "\<exists>g. discretise xa xb nx ''neumann'' = Inr g
              \<and> length (grid_xs g) = nat nx \<and> hd (grid_xs g) = xa \<and> last (grid_xs g) = xb
              \<and> grid_dx g = (xb - xa) / real_of_int (nx - 1) \<and> grid_dx g < 0
              \<and> (\<forall>i<nat nx. grid_xs g ! i = xa + real i * grid_dx g)"
    by simp
  from discretise_boundary_rows(3)[OF nx4 xs(1,2)] xs(2-5) dx neg
  show "\<exists>g. discretise_one_sided xa xb nx = Inr g
              \<and> length (grid_xs g) = nat nx \<and> hd (grid_xs g) = xa \<and> last (grid_xs g) = xb
              \<and> grid_dx g = (xb - xa) / real_of_int (nx - 1) \<and> grid_dx g < 0
              \<and> (\<forall>i<nat nx. grid_xs g ! i = xa + real i * grid_dx g)"
    by simp
qed

text \<open>
  C6 as stated fails: with \<open>xa = 1 > xb = 0\<close> and \<open>nx = 2\<close> a grid is returned.
\<close>

theorem discretise_reversed_domain_counterexample:
  "discretise 1 0 2 ''periodic'' =
     Inr \<lparr>grid_xs = [1, 0], grid_dx = - 1, grid_eye = [[1, 0], [0, 1]],
          grid_ddx = [[0, 0], [0, 0]], grid_d2dx2 = [[- 2, 2], [2, - 2]]\<rparr>"
  by (simp add: discretise_def linspace_def then_do_def eye_def roll_def roll_row_def
      central_ddx_def central_d2dx2_def mdiv_def msub_def madd_def mscale_def upt_rec)

theorem discretise_fails_only_for_small_nx_witness:
  "(- 1 :: int) < 0 \<and> discretise 0 1 (- 1) ''periodic'' = Inl ValueError
   \<and> (0::int) \<le> 1 \<and> (1::int) < 2 \<and> discretise 0 1 1 ''periodic'' = Inl IndexError
   \<and> (2::int) \<le> 2 \<and> (0::real) < 1
   \<and> (\<exists>g. discretise 1 0 2 ''periodic'' = Inr g \<and> grid_dx g = - 1 \<and> hd (grid_xs g) = 1
          \<and> last (grid_xs g) = 0)
   \<and> (4::int) \<le> 4
   \<and> (\<exists>g. discretise 1 0 4 ''neumann'' = Inr g \<and> grid_dx g < 0)"
  using discretise_fails_only_for_small_nx[of "- 1" 0 1 "''periodic''"]
    discretise_fails_only_for_small_nx[of 1 0 1 "''periodic''"]
    discretise_fails_only_for_small_nx[of 2 1 0 "''periodic''"]
    discretise_fails_only_for_small_nx[of 4 1 0 "''periodic''"]
  by simp blast

subsection \<open>The Neumann identity matrix\<close>

lemma sum_list_upt_zero_tail:
  assumes "\<And>j. a \<le> j \<Longrightarrow> j < a + k \<Longrightarrow> f j = (0::real)"
  shows "sum_list (map f [0..<a + k]) = sum_list (map f [0..<a])"
proof -
  have e: "[0..<a + k] = [0..<a] @ [a..<a + k]" by (rule upt_add_eq_append) simp
  have "map f [a..<a + k] = map (\<lambda>_. 0) [a..<a + k]"
    using assms by (intro map_cong) simp_all
  then have "sum_list (map f [a..<a + k]) = sum_list (map (\<lambda>_. 0::real) [a..<a + k])"
    by (rule arg_cong)
  also have "\<dots> = 0" by (rule sum_list_0)
  finally have z: "sum_list (map f [a..<a + k]) = 0" .
  have "sum_list (map f [0..<a + k]) = sum_list (map f [0..<a]) + sum_list (map f [a..<a + k])"
    by (subst e) simp
  with z show ?thesis by simp
qed

lemma ddx_forward_stencil:
  assumes "dx \<noteq> 0"
  shows "first_derivative_stencil 0 dx (ddx_forward dx @ replicate k 0)"
proof -
  let ?row = "ddx_forward dx @ replicate k 0"
  let ?f = "\<lambda>j. ?row ! j * ((real j - real 0) * dx)"
  have s: "sum_list ?row = 0"
    using assms by (simp add: ddx_forward_def sum_list_replicate field_simps)
  have u: "[0..<4::nat] = [0, 1, 2, 3]" by (simp add: upt_rec)
  have "sum_list (map ?f [0..<length ?row]) = sum_list (map ?f [0..<4 + k])" by simp
  also have "\<dots> = sum_list (map ?f [0..<4])"
    by (rule sum_list_upt_zero_tail) (simp add: nth_append)
  also have "\<dots> = 1"
    using assms by (simp add: u ddx_forward_def field_simps)
  finally show ?thesis using s by (simp add: first_derivative_stencil_def)
qed

lemma corner_row_not_stencil:
  assumes "v \<noteq> 0"
  shows "\<not> first_derivative_stencil i dx (v # replicate k 0)"
    and "\<not> first_derivative_stencil i dx (replicate k 0 @ [v])"
  using assms by (simp_all add: first_derivative_stencil_def sum_list_replicate)

text \<open>
  C4 (as amended). For \<open>nx \<ge> 4\<close> and \<open>xa \<noteq> xb\<close>, \<^verbatim>\<open>discretise\<close> with
  \<^verbatim>\<open>bcs="neumann"\<close> returns what it returns with \<^verbatim>\<open>bcs="dirichlet"\<close>, except for the
  identity matrix, whose two corner entries \<open>eye[0, 0]\<close> and \<open>eye[-1, -1]\<close> are set to
  \<open>dx*dx\<close>: its boundary rows are \<open>(dx\<^sup>2, 0, \<dots>, 0)\<close> and \<open>(0, \<dots>, 0, dx\<^sup>2)\<close>, which are
  not first-derivative stencils. The one-sided first-derivative stencils are in the
  boundary rows of \<^verbatim>\<open>ddx\<close>.
\<close>

theorem neumann_sets_eye_corners:
  assumes "4 \<le> nx" and "xa \<noteq> xb"
  shows "\<exists>gd gn. discretise xa xb nx ''dirichlet'' = Inr gd
           \<and> discretise xa xb nx ''neumann'' = Inr gn
           \<and> grid_xs gn = grid_xs gd \<and> grid_dx gn = grid_dx gd
           \<and> grid_ddx gn = grid_ddx gd \<and> grid_d2dx2 gn = grid_d2dx2 gd
           \<and> grid_dx gn = (xb - xa) / real_of_int (nx - 1)
           \<and> grid_eye gd = eye (nat nx)
           \<and> grid_eye gn =
               (eye (nat nx))[0 := (grid_dx gn * grid_dx gn) # replicate (nat nx - 1) 0,
                              nat nx - 1 := replicate (nat nx - 1) 0 @ [grid_dx gn * grid_dx gn]]
           \<and> grid_eye gn ! 0 = (grid_dx gn * grid_dx gn) # replicate (nat nx - 1) 0
           \<and> grid_eye gn ! (nat nx - 1) = replicate (nat nx - 1) 0 @ [grid_dx gn * grid_dx gn]
           \<and> \<not> first_derivative_stencil 0 (grid_dx gn) (grid_eye gn ! 0)
           \<and> \<not> first_derivative_stencil (nat nx - 1) (grid_dx gn) (grid_eye gn ! (nat nx - 1))
           \<and> grid_ddx gn ! 0 = ddx_forward (grid_dx gn) @ replicate (nat nx - 4) 0
           \<and> grid_ddx gn ! (nat nx - 1) = replicate (nat nx - 4) 0 @ ddx_backward (grid_dx gn)
           \<and> first_derivative_stencil 0 (grid_dx gn) (grid_ddx gn ! 0)"
proof -
  let ?n = "nat nx"
  from assms(1) have nx: "2 \<le> nx" and n4: "4 \<le> ?n" by simp_all
  from discretise_shape[OF nx, of xa xb] obtain xs where
    xs: "linspace xa xb nx = Inr xs" "length xs = nat nx"
      "xs ! 1 - xs ! 0 = (xb - xa) / real_of_int (nx - 1)"
    by blast
  define dx where "dx = xs ! Suc 0 - xs ! 0"
  have dx: "dx = (xb - xa) / real_of_int (nx - 1)" using xs(3) by (simp add: dx_def)
  have nz: "dx \<noteq> 0" using assms(2) nx by (simp add: dx)
  define ddx' where "ddx' = (central_ddx (eye ?n) dx)
                     [0 := ddx_forward dx @ replicate (?n - 4) 0,
                      ?n - 1 := replicate (?n - 4) 0 @ ddx_backward dx]"
  define d2dx2' where "d2dx2' = (central_d2dx2 (eye ?n) dx)
                     [0 := d2dx2_forward dx @ replicate (?n - 4) 0,
                      ?n - 1 := replicate (?n - 4) 0 @ d2dx2_backward dx]"
  define eye' where "eye' = (eye ?n)[0 := (dx * dx) # replicate (?n - 1) 0,
                                   ?n - 1 := replicate (?n - 1) 0 @ [dx * dx]]"
  let ?gd = "\<lparr>grid_xs = xs, grid_dx = dx, grid_eye = eye ?n, grid_ddx = ddx',
                grid_d2dx2 = d2dx2'\<rparr>"
  let ?gn = "\<lparr>grid_xs = xs, grid_dx = dx, grid_eye = eye', grid_ddx = ddx',
                grid_d2dx2 = d2dx2'\<rparr>"
  have d: "discretise xa xb nx ''dirichlet'' = Inr ?gd"
    using discretise_boundary_rows(1)[OF assms(1) xs(1,2)]
    by (simp only: dx_def ddx'_def d2dx2'_def)
  have n: "discretise xa xb nx ''neumann'' = Inr ?gn"
    using discretise_boundary_rows(2)[OF assms(1) xs(1,2)]
    by (simp only: dx_def ddx'_def d2dx2'_def eye'_def)
  have le: "length (eye ?n) = ?n" "length (central_ddx (eye ?n) dx) = ?n"
    using square_length[OF square_eye] square_length[OF square_central_ddx[OF square_eye]]
    by simp_all
  have e0: "eye' ! 0 = (dx * dx) # replicate (?n - 1) 0"
    using n4 le by (simp add: eye'_def nth_list_update)
  have el: "eye' ! (?n - 1) = replicate (?n - 1) 0 @ [dx * dx]"
    using n4 le by (simp add: eye'_def)
  have d0: "ddx' ! 0 = ddx_forward dx @ replicate (?n - 4) 0"
    using n4 le by (simp add: ddx'_def nth_list_update)
  have dl: "ddx' ! (?n - 1) = replicate (?n - 4) 0 @ ddx_backward dx"
    using n4 le by (simp add: ddx'_def)
  have v: "dx * dx \<noteq> 0" using nz by simp
  have ns0: "\<not> first_derivative_stencil 0 dx (eye' ! 0)"
    unfolding e0 by (rule corner_row_not_stencil(1)[OF v])
  have nsl: "\<not> first_derivative_stencil (?n - 1) dx (eye' ! (?n - 1))"
    unfolding el by (rule corner_row_not_stencil(2)[OF v])
  have st: "first_derivative_stencil 0 dx (ddx' ! 0)"
    unfolding d0 by (rule ddx_forward_stencil[OF nz])
  show ?thesis
  proof (intro exI conjI)
    show "discretise xa xb nx ''dirichlet'' = Inr ?gd" by (rule d)
    show "discretise xa xb nx ''neumann'' = Inr ?gn" by (rule n)
    show "grid_xs ?gn = grid_xs ?gd" "grid_dx ?gn = grid_dx ?gd"
      "grid_ddx ?gn = grid_ddx ?gd" "grid_d2dx2 ?gn = grid_d2dx2 ?gd"
      "grid_eye ?gd = eye (nat nx)"
      by simp_all
    show "grid_dx ?gn = (xb - xa) / real_of_int (nx - 1)" using dx by simp
    show "grid_eye ?gn =
               (eye (nat nx))[0 := (grid_dx ?gn * grid_dx ?gn) # replicate (nat nx - 1) 0,
                              nat nx - 1 := replicate (nat nx - 1) 0 @ [grid_dx ?gn * grid_dx ?gn]]"
      by (simp add: eye'_def)
    show "grid_eye ?gn ! 0 = (grid_dx ?gn * grid_dx ?gn) # replicate (nat nx - 1) 0"
      using e0 by simp
    show "grid_eye ?gn ! (nat nx - 1) = replicate (nat nx - 1) 0 @ [grid_dx ?gn * grid_dx ?gn]"
      using el by simp
    show "\<not> first_derivative_stencil 0 (grid_dx ?gn) (grid_eye ?gn ! 0)"
      using ns0 by simp
    show "\<not> first_derivative_stencil (nat nx - 1) (grid_dx ?gn) (grid_eye ?gn ! (nat nx - 1))"
      using nsl by simp
    show "grid_ddx ?gn ! 0 = ddx_forward (grid_dx ?gn) @ replicate (nat nx - 4) 0"
      using d0 by simp
    show "grid_ddx ?gn ! (nat nx - 1) = replicate (nat nx - 4) 0 @ ddx_backward (grid_dx ?gn)"
      using dl by simp
    show "first_derivative_stencil 0 (grid_dx ?gn) (grid_ddx ?gn ! 0)"
      using st by simp
  qed
qed

text \<open>
  C4 as stated fails: on \<open>[0, 8]\<close> with 5 points (\<open>dx = 2\<close>) the boundary rows of the
  returned identity matrix are \<open>(4, 0, 0, 0, 0)\<close> and \<open>(0, 0, 0, 0, 4)\<close>; applied to the
  samples of a constant they give 4 times the constant, not 0.
\<close>

theorem neumann_eye_not_a_stencil_counterexample:
  "map_sum id grid_eye (discretise 0 8 5 ''neumann'') =
     Inr [[4, 0, 0, 0, 0], [0, 1, 0, 0, 0], [0, 0, 1, 0, 0], [0, 0, 0, 1, 0], [0, 0, 0, 0, 4]]
   \<and> \<not> first_derivative_stencil 0 2 [4, 0, 0, 0, 0]
   \<and> \<not> first_derivative_stencil 4 2 [0, 0, 0, 0, 4]"
proof -
  have u: "[0..<5::nat] = [0, 1, 2, 3, 4]" by (simp add: upt_rec)
  have lin: "linspace 0 8 5 = Inr [0, 2, 4, 6, 8]" by (simp add: linspace_def u)
  have e: "eye 5 = [[1, 0, 0, 0, 0], [0, 1, 0, 0, 0], [0, 0, 1, 0, 0], [0, 0, 0, 1, 0], [0, 0, 0, 0, 1]]"
    by (simp add: eye_def u)
  have r: "replicate 4 (0::real) = [0, 0, 0, 0]" by (simp add: numeral_eq_Suc)
  from discretise_boundary_rows(2)[of 5 0 8 "[0, 2, 4, 6, 8]"] lin
  have "map_sum id grid_eye (discretise 0 8 5 ''neumann'') =
     Inr [[4, 0, 0, 0, 0], [0, 1, 0, 0, 0], [0, 0, 1, 0, 0], [0, 0, 0, 1, 0], [0, 0, 0, 0, 4]]"
    by (simp add: e r)
  moreover have "\<not> first_derivative_stencil 0 2 [4, 0, 0, 0, 0]"
    "\<not> first_derivative_stencil 4 2 [0, 0, 0, 0, 4]"
    by (simp_all add: first_derivative_stencil_def)
  ultimately show ?thesis by simp
qed

theorem neumann_sets_eye_corners_witness:
  "(4::int) \<le> 5 \<and> (0::real) \<noteq> 8
   \<and> (\<exists>gn. discretise 0 8 5 ''neumann'' = Inr gn \<and> grid_dx gn = 2
          \<and> grid_eye gn ! 0 = [4, 0, 0, 0, 0] \<and> grid_eye gn ! 4 = [0, 0, 0, 0, 4])"
proof -
  have r: "replicate 4 (0::real) = [0, 0, 0, 0]" by (simp add: numeral_eq_Suc)
  from neumann_sets_eye_corners[of 5 0 8] obtain gn where
    "discretise 0 8 5 ''neumann'' = Inr gn" "grid_dx gn = 2"
    "grid_eye gn ! 0 = (grid_dx gn * grid_dx gn) # replicate 4 0"
    "grid_eye gn ! 4 = replicate 4 0 @ [grid_dx gn * grid_dx gn]"
    by auto
  then show ?thesis by (auto simp: r)
qed

subsection \<open>The fourth-derivative matrix\<close>

lemma square_central_d4dx4: "square n e \<Longrightarrow> square n (central_d4dx4 e d)"
  unfolding central_d4dx4_def
  by (intro square_mdiv square_madd square_msub square_roll square_mscale)

lemma fill_whole_row:
  assumes "square n m" and "py_index r n = Inr i"
  shows "fill_slice r None None c m = Inr (m[i := replicate n c])"
proof -
  have "slice_range None None n = (0, n)" by (simp add: slice_range_def)
  moreover from assms(2) have "i < n" by (auto simp: py_index_def Let_def split: if_splits)
  with assms(1) have "length (m ! i) = n" by (rule square_nth)
  ultimately show ?thesis using fill_slice_row[OF assms, of None None 0 n c] by simp
qed

lemma d4dx4_mat_dirichlet:
  assumes nx: "5 \<le> nx"
  defines "n \<equiv> nat nx"
  shows "d4dx4_mat nx (NpFloat dx) ''dirichlet'' =
           Inr ((central_d4dx4 (eye n) (dx ^ 4))
                  [0 := map (\<lambda>c. c / dx ^ 4) [1, - 4, 6, - 4, 1] @ replicate (n - 5) 0,
                   1 := replicate n 0, n - 2 := replicate n 0, n - 1 := replicate n 0])"
proof -
  let ?M = "central_d4dx4 (eye n) (dx ^ 4)"
  let ?st = "map (\<lambda>c. c / dx ^ 4) [1, - 4, 6, - 4, 1 :: real]"
  let ?m1 = "?M[0 := replicate n 0]"
  let ?m2 = "?M[0 := ?st @ replicate (n - 5) 0]"
  let ?m3 = "?m2[1 := replicate n 0]"
  let ?m4 = "?m3[n - 2 := replicate n 0]"
  let ?m5 = "?m4[n - 1 := replicate n 0]"
  have n5: "5 \<le> n" using nx by (simp add: n_def)
  have sq: "square n ?M" by (rule square_central_d4dx4[OF square_eye])
  have lenM: "length ?M = n" using sq by (rule square_length)
  have i0: "py_index 0 n = Inr 0" using n5 by (simp add: py_index_first)
  have i1: "py_index 1 n = Inr 1" using py_index_nat[of 1 n] n5 by simp
  have i2: "py_index (- 2) n = Inr (n - 2)" using py_index_from_end[of 2 n] n5 by simp
  have il: "py_index (- 1) n = Inr (n - 1)" using py_index_from_end[of 1 n] n5 by simp
  have s1: "fill_slice 0 None None 0 ?M = Inr ?m1" by (rule fill_whole_row[OF sq i0])
  have sq1: "square n ?m1" by (intro square_update[OF sq]) simp
  have r5: "slice_range None (Some 5) n = (0, 5)"
    using n5 by (simp add: slice_range_def slice_bound_def)
  have "set_slice 0 None (Some 5) ?st ?m1 = Inr (?m1[0 := take 0 (?m1 ! 0) @ ?st @ drop 5 (?m1 ! 0)])"
    by (intro set_slice_row[OF sq1 i0 r5]) simp
  also have "?m1[0 := take 0 (?m1 ! 0) @ ?st @ drop 5 (?m1 ! 0)] = ?m2"
    using lenM n5 by simp
  finally have s2: "set_slice 0 None (Some 5) ?st ?m1 = Inr ?m2" .
  have sq2: "square n ?m2" using n5 by (intro square_update[OF sq]) simp
  have s3: "fill_slice 1 None None 0 ?m2 = Inr ?m3" by (rule fill_whole_row[OF sq2 i1])
  have sq3: "square n ?m3" by (intro square_update[OF sq2]) simp
  have s4: "fill_slice (- 2) None None 0 ?m3 = Inr ?m4" by (rule fill_whole_row[OF sq3 i2])
  have sq4: "square n ?m4" by (intro square_update[OF sq3]) simp
  have s5: "fill_slice (- 1) None None 0 ?m4 = Inr ?m5" by (rule fill_whole_row[OF sq4 il])
  have td: "tuple_div [1, - 4, 6, - 4, 1] (NpFloat dx) (dx ^ 4) = Inr ?st"
    by (simp add: tuple_div_def)
  have nn: "\<not> nx < 0" using nx by simp
  have "d4dx4_mat nx (NpFloat dx) ''dirichlet'' =
          then_do (fill_slice 0 None None 0 ?M) (\<lambda>m1.
           then_do (tuple_div [1, - 4, 6, - 4, 1] (NpFloat dx) (dx ^ 4)) (\<lambda>stencil.
           then_do (set_slice 0 None (Some 5) stencil m1) (\<lambda>m2.
           then_do (fill_slice 1 None None 0 m2) (\<lambda>m3.
           then_do (fill_slice (- 2) None None 0 m3) (\<lambda>m4.
           fill_slice (- 1) None None 0 m4)))))"
    using nn by (simp add: d4dx4_mat_def Let_def n_def)
  also have "\<dots> = Inr ?m5"
    by (simp only: then_do_def s1 s2 s3 s4 s5 td sum.case)
  finally show ?thesis .
qed

text \<open>
  With a Python number for the spacing (the default \<^verbatim>\<open>dx=1\<close>) the Dirichlet branch
  raises TypeError when it divides the tuple.
\<close>

lemma d4dx4_mat_python_number:
  assumes "1 \<le> nx"
  shows "d4dx4_mat nx (PyNum dx) ''dirichlet'' = Inl TypeError"
proof -
  let ?M = "central_d4dx4 (eye (nat nx)) (dx ^ 4)"
  have sq: "square (nat nx) ?M" by (rule square_central_d4dx4[OF square_eye])
  have i0: "py_index 0 (nat nx) = Inr 0" using assms by (simp add: py_index_first)
  have s1: "fill_slice 0 None None 0 ?M = Inr (?M[0 := replicate (nat nx) 0])"
    by (rule fill_whole_row[OF sq i0])
  show ?thesis
    using assms by (simp add: d4dx4_mat_def Let_def then_do_def s1 tuple_div_def)
qed

text \<open>
  C5 (as amended). For \<open>nx \<ge> 5\<close> and a non-zero NumPy spacing, \<^verbatim>\<open>d4dx4_mat\<close> with
  \<^verbatim>\<open>bcs="dirichlet"\<close> returns a matrix whose rows 1, \<open>nx - 2\<close> and \<open>nx - 1\<close> are zero and
  whose row 0 holds the forward stencil \<open>(1, -4, 6, -4, 1)/dx\<^sup>4\<close> in its first five
  columns and zeros elsewhere; row 0 is not zero.
\<close>

theorem d4dx4_dirichlet_boundary_rows:
  assumes "5 \<le> nx" and "dx \<noteq> 0"
  shows "\<exists>m. d4dx4_mat nx (NpFloat dx) ''dirichlet'' = Inr m
           \<and> square (nat nx) m
           \<and> m ! 0 = map (\<lambda>c. c / dx ^ 4) [1, - 4, 6, - 4, 1] @ replicate (nat nx - 5) 0
           \<and> m ! 0 \<noteq> replicate (nat nx) 0
           \<and> m ! 1 = replicate (nat nx) 0
           \<and> m ! (nat nx - 2) = replicate (nat nx) 0
           \<and> m ! (nat nx - 1) = replicate (nat nx) 0"
proof -
  let ?n = "nat nx"
  let ?M = "central_d4dx4 (eye ?n) (dx ^ 4)"
  let ?st = "map (\<lambda>c. c / dx ^ 4) [1, - 4, 6, - 4, 1 :: real]"
  let ?m = "?M[0 := ?st @ replicate (?n - 5) 0,
               1 := replicate ?n 0, ?n - 2 := replicate ?n 0, ?n - 1 := replicate ?n 0]"
  have n5: "5 \<le> ?n" using assms(1) by simp
  have sq: "square ?n ?M" by (rule square_central_d4dx4[OF square_eye])
  have lenM: "length ?M = ?n" using sq by (rule square_length)
  have eq: "d4dx4_mat nx (NpFloat dx) ''dirichlet'' = Inr ?m"
    by (rule d4dx4_mat_dirichlet[OF assms(1)])
  have sqm: "square ?n ?m"
    using n5 by (intro square_update sq) simp_all
  have r0: "?m ! 0 = ?st @ replicate (?n - 5) 0" using n5 lenM by simp
  have "hd (?m ! 0) = 1 / dx ^ 4" unfolding r0 by simp
  moreover have "hd (replicate ?n (0::real)) = 0" using n5 by (cases ?n) simp_all
  moreover have "1 / dx ^ 4 \<noteq> 0" using assms(2) by simp
  ultimately have nz: "?m ! 0 \<noteq> replicate ?n 0" by metis
  have r1: "?m ! 1 = replicate ?n 0" using n5 lenM by simp
  have r2: "?m ! (?n - 2) = replicate ?n 0" using n5 lenM by simp
  have r3: "?m ! (?n - 1) = replicate ?n 0" using n5 lenM by simp
  from eq sqm r0 nz r1 r2 r3 show ?thesis by blast
qed

text \<open>
  C5 as stated fails: with 5 points and spacing 1, row 0 of the returned matrix is
  \<open>(1, -4, 6, -4, 1)\<close>.
\<close>

theorem d4dx4_first_row_counterexample:
  "d4dx4_mat 5 (NpFloat 1) ''dirichlet'' =
     Inr [[1, - 4, 6, - 4, 1], [0, 0, 0, 0, 0], [1, - 4, 6, - 4, 1], [0, 0, 0, 0, 0],
          [0, 0, 0, 0, 0]]"
proof -
  have u: "[0..<5::nat] = [0, 1, 2, 3, 4]" by (simp add: upt_rec)
  have r: "replicate 5 (0::real) = [0, 0, 0, 0, 0]" by (simp add: numeral_eq_Suc)
  have M: "central_d4dx4 (eye 5) 1 =
             [[6, - 4, 1, 1, - 4], [- 4, 6, - 4, 1, 1], [1, - 4, 6, - 4, 1],
              [1, 1, - 4, 6, - 4], [- 4, 1, 1, - 4, 6]]"
    by (simp add: central_d4dx4_def eye_def roll_def roll_row_def mdiv_def madd_def msub_def
        mscale_def u)
  from d4dx4_mat_dirichlet[of 5 1] show ?thesis by (simp add: M r)
qed

theorem d4dx4_dirichlet_boundary_rows_witness:
  "(5::int) \<le> 7 \<and> (2::real) \<noteq> 0
   \<and> (\<exists>m. d4dx4_mat 7 (NpFloat 2) ''dirichlet'' = Inr m
          \<and> m ! 0 = [1 / 16, - (1 / 4), 3 / 8, - (1 / 4), 1 / 16, 0, 0]
          \<and> m ! 1 = [0, 0, 0, 0, 0, 0, 0]
          \<and> m ! 5 = [0, 0, 0, 0, 0, 0, 0]
          \<and> m ! 6 = [0, 0, 0, 0, 0, 0, 0])"
proof -
  have r: "replicate 7 (0::real) = [0, 0, 0, 0, 0, 0, 0]" "replicate 2 (0::real) = [0, 0]"
    by (simp_all add: numeral_eq_Suc)
  from d4dx4_dirichlet_boundary_rows[of 7 2] obtain m where
    "d4dx4_mat 7 (NpFloat 2) ''dirichlet'' = Inr m"
    "m ! 0 = map (\<lambda>c. c / 2 ^ 4) [1, - 4, 6, - 4, 1] @ replicate 2 0"
    "m ! 1 = replicate 7 0" "m ! 5 = replicate 7 0" "m ! 6 = replicate 7 0"
    by auto
  then show ?thesis by (auto simp: r)
qed

section \<open>Properties of the eigenpair post-processing\<close>

lemma filter_keeps_order:
  assumes "sorted_wrt (<) (filter P xs)" and "a < b" and "b < length xs"
    and "P (xs ! a)" and "P (xs ! b)"
  shows "xs ! a < (xs ! b :: nat)"
proof -
  have xs: "xs = take b xs @ xs ! b # drop (Suc b) xs"
    using assms(3) by (rule id_take_nth_drop)
  have "filter P xs = filter P (take b xs) @ xs ! b # filter P (drop (Suc b) xs)"
    by (subst xs) (simp add: assms(5))
  with assms(1) have "\<forall>x \<in> set (filter P (take b xs)). x < xs ! b"
    by (simp add: sorted_wrt_append)
  moreover have "xs ! a \<in> set (take b xs)"
    using assms(2,3) by (auto simp: in_set_conv_nth intro!: exI[of _ a])
  ultimately show ?thesis using assms(4) by simp
qed

lemma sort_key_upt_stable:
  fixes key :: "nat \<Rightarrow> real"
  assumes "a < b" and "b < n"
    and "key (sort_key key [0..<n] ! a) = key (sort_key key [0..<n] ! b)"
  shows "sort_key key [0..<n] ! a < sort_key key [0..<n] ! b"
proof -
  let ?ord = "sort_key key [0..<n]"
  let ?P = "\<lambda>y. key y = key (?ord ! b)"
  have "filter ?P ?ord = filter ?P [0..<n]" by (rule sort_key_stable)
  moreover have "sorted_wrt (<) (filter ?P [0..<n])"
    by (intro sorted_wrt_filter) (simp add: sorted_wrt_upt)
  ultimately have "sorted_wrt (<) (filter ?P ?ord)" by simp
  then show ?thesis
    using assms by (intro filter_keeps_order[of ?P]) simp_all
qed

lemma column_reordered:
  assumes "j < length idx"
  shows "column (map (\<lambda>row. map (\<lambda>i. row ! i * s) idx) m) j =
           map (\<lambda>z. z * s) (column m (idx ! j))"
  using assms by (simp add: column_def)

text \<open>
  C1. Whenever the solver returns \<open>nx\<close> eigenvalues and eigenvectors of length \<open>nx\<close> (the
  columns of the returned matrix), \<^verbatim>\<open>myeig\<close> returns them reordered by an index list that
  is a permutation of \<open>0, \<dots>, nx - 1\<close>: the eigenvalues are the same values (unchanged, as a
  multiset), in ascending order of real part; eigenvalues of equal real part keep the
  solver's order (the sort is stable); and column \<open>j\<close> of the returned matrix is the
  eigenvector that belongs to the \<open>j\<close>-th returned eigenvalue, multiplied by \<open>sqrt(nx)\<close>.
\<close>

theorem myeig_sorts_and_rescales:
  assumes "eig op eye0 = Inr (eigvals, eigvecs)"
    and "length eigvals = length op"
    and "list_all (\<lambda>row. length row = length op) eigvecs"
  shows "\<exists>vals' vecs' idx.
           myeig eig op eye0 = Inr (vals', vecs')
         \<and> mset idx = mset [0..<length op]
         \<and> length vals' = length op
         \<and> mset vals' = mset eigvals
         \<and> (\<forall>j<length op. vals' ! j = eigvals ! (idx ! j)
               \<and> column vecs' j =
                   map (\<lambda>z. z * complex_of_real (sqrt (real (length op))))
                       (column eigvecs (idx ! j)))
         \<and> sorted (map Re vals')
         \<and> (\<forall>a b. a < b \<and> b < length op \<and> Re (vals' ! a) = Re (vals' ! b)
               \<longrightarrow> idx ! a < idx ! b)"
proof -
  let ?nx = "length op"
  let ?key = "\<lambda>i. Re (eigvals ! i)"
  let ?ord = "sort_key ?key [0..<?nx]"
  let ?s = "complex_of_real (sqrt (real ?nx))"
  let ?vals = "map (\<lambda>i. eigvals ! i) ?ord"
  let ?vecs = "map (\<lambda>row. map (\<lambda>i. row ! i * ?s) ?ord) eigvecs"
  have guard: "\<not> (length eigvals < ?nx \<or> list_ex (\<lambda>row. length row < ?nx) eigvecs)"
    using assms(2,3) by (auto simp: list_ex_iff list_all_iff)
  have res: "myeig eig op eye0 = Inr (?vals, ?vecs)"
    using assms(1) guard by (simp add: myeig_def then_do_def Let_def)
  have perm: "mset ?ord = mset [0..<?nx]" by simp
  have len: "length ?ord = ?nx" by simp
  have "mset ?vals = image_mset (\<lambda>i. eigvals ! i) (mset ?ord)" by simp
  also have "\<dots> = image_mset (\<lambda>i. eigvals ! i) (mset [0..<?nx])" by (simp only: perm)
  also have "\<dots> = mset (map (\<lambda>i. eigvals ! i) [0..<length eigvals])"
    by (simp add: assms(2))
  also have "\<dots> = mset eigvals" by (simp add: map_nth)
  finally have msv: "mset ?vals = mset eigvals" .
  have nth: "?vals ! j = eigvals ! (?ord ! j)" if "j < ?nx" for j
    using that len by simp
  have col: "column ?vecs j = map (\<lambda>z. z * ?s) (column eigvecs (?ord ! j))" if "j < ?nx" for j
    using that len by (intro column_reordered) simp
  have "map Re ?vals = map ?key ?ord" by simp
  also have "sorted (map ?key ?ord)" by (rule sorted_sort_key)
  finally have srt: "sorted (map Re ?vals)" .
  have stab: "?ord ! a < ?ord ! b"
    if "a < b" "b < ?nx" "Re (?vals ! a) = Re (?vals ! b)" for a b
  proof -
    from that have "?key (?ord ! a) = ?key (?ord ! b)" using len by simp
    with that(1,2) show ?thesis by (intro sort_key_upt_stable)
  qed
  show ?thesis
  proof (intro exI conjI allI impI)
    show "myeig eig op eye0 = Inr (?vals, ?vecs)" by (rule res)
    show "mset ?ord = mset [0..<?nx]" by (rule perm)
    show "length ?vals = ?nx" by simp
    show "mset ?vals = mset eigvals" by (rule msv)
    show "sorted (map Re ?vals)" by (rule srt)
  next
    fix j assume "j < ?nx"
    then show "?vals ! j = eigvals ! (?ord ! j)" by (rule nth)
  next
    fix j assume "j < ?nx"
    then show "column ?vecs j = map (\<lambda>z. z * ?s) (column eigvecs (?ord ! j))" by (rule col)
  next
    fix a b assume "a < b \<and> b < ?nx \<and> Re (?vals ! a) = Re (?vals ! b)"
    then show "?ord ! a < ?ord ! b" using stab by blast
  qed
qed

theorem myeig_sorts_and_rescales_witness:
  "diag_solver [[2, 0], [0, 1]] (eye 2) = Inr ([2, 1], [[1, 0], [0, 1]])
   \<and> length [2, 1 :: complex] = length [[2, 0], [0, 1 :: real]]
   \<and> list_all (\<lambda>row. length row = length [[2, 0], [0, 1 :: real]]) [[1, 0], [0, 1 :: complex]]
   \<and> myeig diag_solver [[2, 0], [0, 1]] (eye 2) =
       Inr ([1, 2], [[0, complex_of_real (sqrt 2)], [complex_of_real (sqrt 2), 0]])
   \<and> (\<exists>vals' vecs'. myeig diag_solver [[2, 0], [0, 1]] (eye 2) = Inr (vals', vecs')
          \<and> sorted (map Re vals') \<and> mset vals' = mset [2, 1])"
proof -
  have s: "diag_solver [[2, 0], [0, 1]] (eye 2) = Inr ([2, 1], [[1, 0], [0, 1]])"
    by (simp add: diag_solver_def)
  have u: "[0..<2::nat] = [0, 1]" by (simp add: upt_rec)
  have e: "myeig diag_solver [[2, 0], [0, 1]] (eye 2) =
       Inr ([1, 2], [[0, complex_of_real (sqrt 2)], [complex_of_real (sqrt 2), 0]])"
    by (simp add: myeig_def then_do_def diag_solver_def u)
  from myeig_sorts_and_rescales[of diag_solver "[[2, 0], [0, 1]]" "eye 2" "[2, 1]"
      "[[1, 0], [0, 1]]"] s
  have "\<exists>vals' vecs'. myeig diag_solver [[2, 0], [0, 1]] (eye 2) = Inr (vals', vecs')
          \<and> sorted (map Re vals') \<and> mset vals' = mset [2, 1]"
    by fastforce
  with s e show ?thesis by simp
qed

end
